theory Spec2Isabelle
  imports Main "HOL-Library.Word"
begin

section \<open>The shared mutex of smtx.h\<close>

text \<open>
  A shallow embedding of the implementation part of \<^verbatim>\<open>smtx.h\<close>: the lock record, the
  clock and backoff helpers, and the nine operations.

  Conventions.
  \<^item> \<^verbatim>\<open>uint\<close> and \<^verbatim>\<open>atomic_uint\<close> are 32-bit words, \<^verbatim>\<open>smtx_ns_t\<close> (\<^verbatim>\<open>uint64_t\<close>) is a
    64-bit word; \<open>+\<close>, \<open>-\<close> and \<open>*\<close> wrap around and \<open><\<close> compares unsigned values.
  \<^item> A pointer argument is an \<open>option\<close>: \<open>None\<close> is \<^verbatim>\<open>NULL\<close>, \<open>Some x\<close> points to an
    object whose content is \<open>x\<close>. An operation returns the content after the call.
  \<^item> The compile-time macros are the fields of a \<open>config\<close> record; \<open>default_config\<close>
    holds the defaults of the header.
  \<^item> What an operation does besides changing the lock is returned as a list of events:
    pause hints, scheduler yields and calls of \<^verbatim>\<open>clock_gettime\<close>.
  \<^item> An assertion that fails halts the process; that outcome is the value
    \<open>Inl Assertion_failed\<close>.
  \<^item> Sections \<open>Operations\<close> describe one call that runs without interference from other
    threads. The interleaving of several threads is the step function of the section
    \<open>Several threads\<close>, in which every atomic access is one step and a load may
    return a value that is not the latest one written, as far as the memory orders of
    the header allow.
\<close>

subsection \<open>Data\<close>

type_synonym uint = "32 word"
type_synonym smtx_ns_t = "64 word"

text \<open>The return codes of \<^verbatim>\<open>threads.h\<close> that the operations use.\<close>

datatype thrd = thrd_success | thrd_busy | thrd_timedout | thrd_error

text \<open>\<^verbatim>\<open>typedef struct { atomic_uint reader_count; atomic_bool writer_locked; } smtx_t;\<close>\<close>

record smtx_t =
  reader_count :: uint
  writer_locked :: bool

text \<open>
  \<^verbatim>\<open>struct timespec\<close>: \<^verbatim>\<open>tv_sec\<close> (\<^verbatim>\<open>time_t\<close>) and \<^verbatim>\<open>tv_nsec\<close> (\<^verbatim>\<open>long\<close>) are signed 64-bit
  integers, kept as their bit patterns; \<open>sint\<close> reads the signed value.
\<close>

record timespec =
  tv_sec :: "64 word"
  tv_nsec :: "64 word"

text \<open>
  The configuration macros: \<^verbatim>\<open>SMTX_DEBUG\<close> (defined unless \<^verbatim>\<open>SMTX_NDEBUG\<close> is),
  \<^verbatim>\<open>SMTX_ASSERT\<close>, \<^verbatim>\<open>SMTX_NEXT_SPINS\<close>, \<^verbatim>\<open>SMTX_MAX_WRITER_WAIT_SPINS\<close>,
  \<^verbatim>\<open>SMTX_MAX_READER_WAIT_SPINS\<close> and \<^verbatim>\<open>SMTX_YIELD_THRESHOLD\<close>.

  \<^verbatim>\<open>SMTX_ASSERT(expr)\<close> is \<^verbatim>\<open>assert(expr)\<close> unless the user overrides it. \<open>assert_active\<close>
  says that it evaluates \<^verbatim>\<open>expr\<close> and halts the process when \<^verbatim>\<open>expr\<close> is false, as
  \<^verbatim>\<open>assert\<close> does; it is false when the macro expands to nothing and \<^verbatim>\<open>expr\<close> is not
  evaluated at all, as \<^verbatim>\<open>assert\<close> does under \<^verbatim>\<open>NDEBUG\<close>.
\<close>

record config =
  debug :: bool
  assert_active :: bool
  next_spins :: "uint \<Rightarrow> uint"
  max_writer_wait_spins :: uint
  max_reader_wait_spins :: uint
  yield_threshold :: uint

definition default_config :: config where
  "default_config =
     \<lparr>debug = True,
      assert_active = True,
      next_spins = (\<lambda>curr_spins. curr_spins * 2),
      max_writer_wait_spins = 1024,
      max_reader_wait_spins = 1024,
      yield_threshold = 512\<rparr>"

text \<open>
  The effects of a call other than on the lock: one \<open>Pause\<close> for each pass through the
  body of the \<^verbatim>\<open>SPIN\<close> loop, \<open>Yield\<close> for \<^verbatim>\<open>SMTX_YIELD\<close>, \<open>Clock\<close> for each
  \<^verbatim>\<open>clock_gettime\<close>.
\<close>

datatype event = Pause | Yield | Clock

text \<open>An assertion that fails halts the process.\<close>

datatype abort = Assertion_failed

subsection \<open>Atomic accesses\<close>

text \<open>
  \<^verbatim>\<open>atomic_fetch_add_explicit(&smtx->reader_count, 1, ...)\<close>,
  \<^verbatim>\<open>atomic_fetch_sub_explicit(&smtx->reader_count, 1, ...)\<close> and
  \<^verbatim>\<open>atomic_store_explicit(&smtx->writer_locked, v, ...)\<close>. The memory orders have no
  counterpart here: every access reads the latest value.
\<close>

definition fetch_add_reader_count :: "smtx_t \<Rightarrow> smtx_t" where
  "fetch_add_reader_count s = s\<lparr>reader_count := reader_count s + 1\<rparr>"

definition fetch_sub_reader_count :: "smtx_t \<Rightarrow> smtx_t" where
  "fetch_sub_reader_count s = s\<lparr>reader_count := reader_count s - 1\<rparr>"

definition store_writer_locked :: "bool \<Rightarrow> smtx_t \<Rightarrow> smtx_t" where
  "store_writer_locked v s = s\<lparr>writer_locked := v\<rparr>"

text \<open>
  \<^verbatim>\<open>atomic_compare_exchange_weak_explicit(obj, &expected, desired, ...)\<close> of C11: when
  the object equals \<^verbatim>\<open>expected\<close> it is replaced by \<^verbatim>\<open>desired\<close> and the call returns
  true, unless the weak form fails spuriously; on failure \<^verbatim>\<open>expected\<close> receives the
  object's value. The result is (returned value, object, expected).
\<close>

definition atomic_compare_exchange_weak :: "bool \<Rightarrow> bool \<Rightarrow> bool \<Rightarrow> bool \<Rightarrow> bool \<times> bool \<times> bool" where
  "atomic_compare_exchange_weak spurious obj expected desired =
     (if obj = expected \<and> \<not> spurious then (True, desired, expected)
      else (False, obj, obj))"

subsection \<open>Clock helper\<close>

text \<open>\<^verbatim>\<open>return (smtx_ns_t)ts->tv_sec * SMTX_NS_PER_S + ts->tv_nsec;\<close>\<close>

definition SMTX_NS_PER_S :: "64 word" where
  "SMTX_NS_PER_S = 1000000000"

definition ns_from_timespec :: "timespec \<Rightarrow> smtx_ns_t" where
  "ns_from_timespec ts = tv_sec ts * SMTX_NS_PER_S + tv_nsec ts"

text \<open>
  \<^verbatim>\<open>struct timespec ts; SMTX_ASSERT(clock_gettime(SMTX_CLOCK_ID, &ts) == 0);
  return ns_from_timespec(&ts);\<close>

  The only call of \<^verbatim>\<open>clock_gettime\<close> is the argument of \<^verbatim>\<open>SMTX_ASSERT\<close>. What one
  call of \<open>ns_since_epoch\<close> meets is a \<open>clock_call\<close>: \<open>gettime\<close> is what
  \<^verbatim>\<open>clock_gettime\<close> stores in \<^verbatim>\<open>ts\<close> if it is called (\<open>None\<close> when it fails and returns
  non-zero), \<open>leftover\<close> is what the uninitialised \<^verbatim>\<open>ts\<close> holds if it is not. The result
  is the nanosecond count with the events of the call, or the failed assertion.
\<close>

record clock_call =
  gettime :: "timespec option"
  leftover :: timespec

definition ns_since_epoch :: "config \<Rightarrow> clock_call \<Rightarrow> abort + smtx_ns_t \<times> event list" where
  "ns_since_epoch cfg r =
     (if assert_active cfg then
        (case gettime r of
           Some ts \<Rightarrow> Inr (ns_from_timespec ts, [Clock])
         | None \<Rightarrow> Inl Assertion_failed)
      else Inr (ns_from_timespec (leftover r), []))"

subsection \<open>Backoff helper\<close>

text \<open>
  \<^verbatim>\<open>for (int i = 0; i < (delay); ++i) { _mm_pause(); }\<close> with \<^verbatim>\<open>delay\<close> of type
  \<^verbatim>\<open>uint\<close>: the comparison converts \<^verbatim>\<open>i\<close> to unsigned, so the counter is a 32-bit word
  compared as an unsigned value (an increment past \<^verbatim>\<open>INT_MAX\<close> wraps around).
\<close>

function SPIN_from :: "uint \<Rightarrow> uint \<Rightarrow> event list" where
  "SPIN_from i delay = (if i < delay then Pause # SPIN_from (i + 1) delay else [])"
  by pat_completeness auto
termination
proof (relation "measure (\<lambda>(i, delay). unat delay - unat i)")
  show "wf (measure (\<lambda>(i :: uint, delay :: uint). unat delay - unat i))"
    by simp
next
  fix i delay :: uint
  assume "i < delay"
  then have "unat delay - unat (i + 1) < unat delay - unat i"
    by unat_arith
  then show "((i + 1, delay), (i, delay)) \<in> measure (\<lambda>(i, delay). unat delay - unat i)"
    by simp
qed

declare SPIN_from.simps [simp del]

definition SPIN :: "uint \<Rightarrow> event list" where
  "SPIN delay = SPIN_from 0 delay"

text \<open>
  \<^verbatim>\<open>SPIN(spins); if (spins > SMTX_YIELD_THRESHOLD) { SMTX_YIELD; }\<close>
\<close>

definition spin_with_yield :: "config \<Rightarrow> uint \<Rightarrow> event list" where
  "spin_with_yield cfg spins =
     SPIN spins @ (if spins > yield_threshold cfg then [Yield] else [])"

text \<open>
  The statement that follows every call of the backoff helper,
  \<^verbatim>\<open>if (spins < CAP) { spins = SMTX_NEXT_SPINS(spins); }\<close>, for the cap \<^verbatim>\<open>CAP\<close> that the
  call site names.
\<close>

definition advance_spins :: "config \<Rightarrow> uint \<Rightarrow> uint \<Rightarrow> uint" where
  "advance_spins cfg cap spins = (if spins < cap then next_spins cfg spins else spins)"

subsection \<open>Operations: init\<close>

text \<open>
  \<^verbatim>\<open>smtx_init\<close>: the storage need not hold anything meaningful before the call.
\<close>

definition smtx_init :: "smtx_t option \<Rightarrow> thrd \<times> smtx_t option" where
  "smtx_init smtx =
     (case smtx of
        None \<Rightarrow> (thrd_error, None)
      | Some _ \<Rightarrow> (thrd_success, Some \<lparr>reader_count = 0, writer_locked = False\<rparr>))"

subsection \<open>Operations: shared mode\<close>

text \<open>
  \<^verbatim>\<open>smtx_lock_shared\<close>. The inner loop waiting for the writer and the outer
  \<^verbatim>\<open>while (true)\<close> are one recursion: a pass either finds the flag set, backs off and
  starts over, or increments the count and checks the flag again. The first argument
  bounds the number of passes; \<open>None\<close> says that the call has not returned within
  them.
\<close>

fun lock_shared_loop ::
  "config \<Rightarrow> nat \<Rightarrow> uint \<Rightarrow> smtx_t \<Rightarrow> event list \<Rightarrow> (thrd \<times> smtx_t option \<times> event list) option" where
  "lock_shared_loop cfg 0 spins s ev = None"
| "lock_shared_loop cfg (Suc fuel) spins s ev =
     (if writer_locked s then
        lock_shared_loop cfg fuel (advance_spins cfg (max_writer_wait_spins cfg) spins) s
          (ev @ spin_with_yield cfg spins)
      else
        let s1 = fetch_add_reader_count s in
        if \<not> writer_locked s1 then Some (thrd_success, Some s1, ev)
        else lock_shared_loop cfg fuel spins (fetch_sub_reader_count s1) ev)"

definition smtx_lock_shared ::
  "config \<Rightarrow> nat \<Rightarrow> smtx_t option \<Rightarrow> (thrd \<times> smtx_t option \<times> event list) option" where
  "smtx_lock_shared cfg fuel smtx =
     (case smtx of
        None \<Rightarrow> Some (thrd_error, None, [])
      | Some s \<Rightarrow> lock_shared_loop cfg fuel 1 s [])"

text \<open>\<^verbatim>\<open>smtx_trylock_shared\<close>\<close>

definition smtx_trylock_shared :: "smtx_t option \<Rightarrow> thrd \<times> smtx_t option \<times> event list" where
  "smtx_trylock_shared smtx =
     (case smtx of
        None \<Rightarrow> (thrd_error, None, [])
      | Some s \<Rightarrow>
          if writer_locked s then (thrd_busy, Some s, [])
          else
            let s1 = fetch_add_reader_count s in
            if writer_locked s1 then (thrd_busy, Some (fetch_sub_reader_count s1), [])
            else (thrd_success, Some s1, []))"

text \<open>
  \<^verbatim>\<open>smtx_timedlock_shared\<close>. The list holds what the successive calls of
  \<open>ns_since_epoch\<close> meet; each evaluation of the loop condition
  \<^verbatim>\<open>ns_since_epoch() < deadline\<close> takes one. \<open>None\<close> says that the call has not returned
  within the list given.
\<close>

fun timedlock_shared_loop ::
  "config \<Rightarrow> smtx_ns_t \<Rightarrow> clock_call list \<Rightarrow> uint \<Rightarrow> smtx_t \<Rightarrow> event list \<Rightarrow>
     (abort + thrd \<times> smtx_t option \<times> event list) option" where
  "timedlock_shared_loop cfg deadline [] spins s ev = None"
| "timedlock_shared_loop cfg deadline (r # clock) spins s ev =
     (case ns_since_epoch cfg r of
        Inl a \<Rightarrow> Some (Inl a)
      | Inr (now, cev) \<Rightarrow>
          if now < deadline then
            if writer_locked s then
              timedlock_shared_loop cfg deadline clock
                (advance_spins cfg (max_writer_wait_spins cfg) spins) s
                (ev @ cev @ spin_with_yield cfg spins)
            else
              let s1 = fetch_add_reader_count s in
              if \<not> writer_locked s1 then Some (Inr (thrd_success, Some s1, ev @ cev))
              else
                timedlock_shared_loop cfg deadline clock
                  (advance_spins cfg (max_writer_wait_spins cfg) spins)
                  (fetch_sub_reader_count s1) (ev @ cev @ spin_with_yield cfg spins)
          else Some (Inr (thrd_timedout, Some s, ev @ cev)))"

definition smtx_timedlock_shared ::
  "config \<Rightarrow> clock_call list \<Rightarrow> smtx_t option \<Rightarrow> timespec option \<Rightarrow>
     (abort + thrd \<times> smtx_t option \<times> event list) option" where
  "smtx_timedlock_shared cfg clock smtx time_point =
     (case (smtx, time_point) of
        (Some s, Some tp) \<Rightarrow> timedlock_shared_loop cfg (ns_from_timespec tp) clock 1 s []
      | _ \<Rightarrow> Some (Inr (thrd_error, smtx, [])))"

text \<open>
  \<^verbatim>\<open>smtx_unlock_shared\<close>. With \<^verbatim>\<open>SMTX_DEBUG\<close> the count is asserted positive first,
  through \<^verbatim>\<open>SMTX_ASSERT\<close>.
\<close>

definition smtx_unlock_shared :: "config \<Rightarrow> smtx_t option \<Rightarrow> abort + thrd \<times> smtx_t option" where
  "smtx_unlock_shared cfg smtx =
     (case smtx of
        None \<Rightarrow> Inr (thrd_error, None)
      | Some s \<Rightarrow>
          if debug cfg \<and> assert_active cfg \<and> \<not> reader_count s > 0 then Inl Assertion_failed
          else Inr (thrd_success, Some (fetch_sub_reader_count s)))"

subsection \<open>Operations: exclusive mode\<close>

text \<open>
  \<^verbatim>\<open>smtx_lock_exclusive\<close>. The first loop retries the weak compare-and-exchange, the
  second waits for the readers to leave. The list of booleans says which of the
  successive compare-and-exchange calls fail spuriously (none, once the list is used
  up); the number bounds the passes through both loops.
\<close>

fun lock_exclusive_drain ::
  "config \<Rightarrow> nat \<Rightarrow> uint \<Rightarrow> smtx_t \<Rightarrow> event list \<Rightarrow> (thrd \<times> smtx_t option \<times> event list) option" where
  "lock_exclusive_drain cfg 0 spins s ev = None"
| "lock_exclusive_drain cfg (Suc fuel) spins s ev =
     (if reader_count s > 0 then
        lock_exclusive_drain cfg fuel (advance_spins cfg (max_reader_wait_spins cfg) spins) s
          (ev @ spin_with_yield cfg spins)
      else Some (thrd_success, Some s, ev))"

fun lock_exclusive_claim ::
  "config \<Rightarrow> nat \<Rightarrow> bool list \<Rightarrow> bool \<Rightarrow> smtx_t \<Rightarrow> (thrd \<times> smtx_t option \<times> event list) option" where
  "lock_exclusive_claim cfg 0 spurious expected s = None"
| "lock_exclusive_claim cfg (Suc fuel) spurious expected s =
     (case atomic_compare_exchange_weak (spurious \<noteq> [] \<and> hd spurious) (writer_locked s) expected True of
        (True, obj, _) \<Rightarrow> lock_exclusive_drain cfg fuel 1 (store_writer_locked obj s) []
      | (False, _, _) \<Rightarrow> lock_exclusive_claim cfg fuel (tl spurious) False s)"

definition smtx_lock_exclusive ::
  "config \<Rightarrow> nat \<Rightarrow> bool list \<Rightarrow> smtx_t option \<Rightarrow> (thrd \<times> smtx_t option \<times> event list) option" where
  "smtx_lock_exclusive cfg fuel spurious smtx =
     (case smtx of
        None \<Rightarrow> Some (thrd_error, None, [])
      | Some s \<Rightarrow> lock_exclusive_claim cfg fuel spurious False s)"

text \<open>
  \<^verbatim>\<open>smtx_trylock_exclusive\<close>; the boolean says whether its one compare-and-exchange
  fails spuriously.
\<close>

definition smtx_trylock_exclusive :: "bool \<Rightarrow> smtx_t option \<Rightarrow> thrd \<times> smtx_t option \<times> event list" where
  "smtx_trylock_exclusive spurious smtx =
     (case smtx of
        None \<Rightarrow> (thrd_error, None, [])
      | Some s \<Rightarrow>
          (case atomic_compare_exchange_weak spurious (writer_locked s) False True of
             (False, _, _) \<Rightarrow> (thrd_busy, Some s, [])
           | (True, obj, _) \<Rightarrow>
               let s1 = store_writer_locked obj s in
               if reader_count s1 > 0 then (thrd_busy, Some (store_writer_locked False s1), [])
               else (thrd_success, Some s1, [])))"

text \<open>
  \<^verbatim>\<open>smtx_timedlock_exclusive\<close>. \<open>ns_since_epoch\<close> is called only after a failed
  compare-and-exchange and after the count was seen non-zero.
\<close>

fun timedlock_exclusive_drain ::
  "config \<Rightarrow> smtx_ns_t \<Rightarrow> clock_call list \<Rightarrow> uint \<Rightarrow> smtx_t \<Rightarrow> event list \<Rightarrow>
     (abort + thrd \<times> smtx_t option \<times> event list) option" where
  "timedlock_exclusive_drain cfg deadline clock spins s ev =
     (if reader_count s > 0 then
        (case clock of
           [] \<Rightarrow> None
         | r # clock' \<Rightarrow>
             (case ns_since_epoch cfg r of
                Inl a \<Rightarrow> Some (Inl a)
              | Inr (now, cev) \<Rightarrow>
                  if now \<ge> deadline then
                    Some (Inr (thrd_timedout, Some (store_writer_locked False s), ev @ cev))
                  else
                    timedlock_exclusive_drain cfg deadline clock'
                      (advance_spins cfg (max_reader_wait_spins cfg) spins) s
                      (ev @ cev @ spin_with_yield cfg spins)))
      else Some (Inr (thrd_success, Some s, ev)))"

fun timedlock_exclusive_claim ::
  "config \<Rightarrow> smtx_ns_t \<Rightarrow> bool list \<Rightarrow> clock_call list \<Rightarrow> bool \<Rightarrow> uint \<Rightarrow> smtx_t \<Rightarrow>
     event list \<Rightarrow> (abort + thrd \<times> smtx_t option \<times> event list) option" where
  "timedlock_exclusive_claim cfg deadline spurious clock expected spins s ev =
     (case atomic_compare_exchange_weak (spurious \<noteq> [] \<and> hd spurious) (writer_locked s) expected True of
        (True, obj, _) \<Rightarrow>
          timedlock_exclusive_drain cfg deadline clock spins (store_writer_locked obj s) ev
      | (False, _, _) \<Rightarrow>
          (case clock of
             [] \<Rightarrow> None
           | r # clock' \<Rightarrow>
               (case ns_since_epoch cfg r of
                  Inl a \<Rightarrow> Some (Inl a)
                | Inr (now, cev) \<Rightarrow>
                    if now \<ge> deadline then Some (Inr (thrd_timedout, Some s, ev @ cev))
                    else
                      timedlock_exclusive_claim cfg deadline (tl spurious) clock' False
                        (advance_spins cfg (max_reader_wait_spins cfg) spins) s
                        (ev @ cev @ spin_with_yield cfg spins))))"

declare timedlock_exclusive_drain.simps [simp del]

declare timedlock_exclusive_claim.simps [simp del]

definition smtx_timedlock_exclusive ::
  "config \<Rightarrow> bool list \<Rightarrow> clock_call list \<Rightarrow> smtx_t option \<Rightarrow> timespec option \<Rightarrow>
     (abort + thrd \<times> smtx_t option \<times> event list) option" where
  "smtx_timedlock_exclusive cfg spurious clock smtx time_point =
     (case (smtx, time_point) of
        (Some s, Some tp) \<Rightarrow>
          timedlock_exclusive_claim cfg (ns_from_timespec tp) spurious clock False 1 s []
      | _ \<Rightarrow> Some (Inr (thrd_error, smtx, [])))"

text \<open>
  \<^verbatim>\<open>smtx_unlock_exclusive\<close>. With \<^verbatim>\<open>SMTX_DEBUG\<close> the flag is asserted set first,
  through \<^verbatim>\<open>SMTX_ASSERT\<close>.
\<close>

definition smtx_unlock_exclusive :: "config \<Rightarrow> smtx_t option \<Rightarrow> abort + thrd \<times> smtx_t option" where
  "smtx_unlock_exclusive cfg smtx =
     (case smtx of
        None \<Rightarrow> Inr (thrd_error, None)
      | Some s \<Rightarrow>
          if debug cfg \<and> assert_active cfg \<and> \<not> writer_locked s then Inl Assertion_failed
          else Inr (thrd_success, Some (store_writer_locked False s)))"


subsection \<open>Waiting rounds and time points\<close>

text \<open>
  Not part of the header; the properties of the timed operations are stated with these.

  Whether a call of \<open>ns_since_epoch\<close> returns a count below the deadline \<open>d\<close>, or one
  that is not below it; the events of one such call; and the events of \<open>n\<close> rounds of a
  timed wait, each round a call of \<open>ns_since_epoch\<close> followed by the backoff helper, with
  the spin count starting at \<open>spins\<close> and advanced under the cap \<open>cap\<close> after each round.
\<close>

definition clock_before :: "config \<Rightarrow> smtx_ns_t \<Rightarrow> clock_call \<Rightarrow> bool" where
  "clock_before cfg d r = (case ns_since_epoch cfg r of Inl _ \<Rightarrow> False | Inr (t, _) \<Rightarrow> t < d)"

definition clock_past :: "config \<Rightarrow> smtx_ns_t \<Rightarrow> clock_call \<Rightarrow> bool" where
  "clock_past cfg d r = (case ns_since_epoch cfg r of Inl _ \<Rightarrow> False | Inr (t, _) \<Rightarrow> d \<le> t)"

definition clock_events :: "config \<Rightarrow> event list" where
  "clock_events cfg = (if assert_active cfg then [Clock] else [])"

fun backoff_events :: "config \<Rightarrow> uint \<Rightarrow> uint \<Rightarrow> nat \<Rightarrow> event list" where
  "backoff_events cfg cap spins 0 = []"
| "backoff_events cfg cap spins (Suc n) =
     clock_events cfg @ spin_with_yield cfg spins
       @ backoff_events cfg cap (advance_spins cfg cap spins) n"

text \<open>
  The time point that a \<^verbatim>\<open>struct timespec\<close> denotes, in nanoseconds, as an integer: its
  fields are signed. \<open>ns_from_timespec\<close> is this number modulo \<open>2^64\<close>; the two agree on
  the time points from 0 to \<open>2^64 - 1\<close>.
\<close>

definition timespec_ns :: "timespec \<Rightarrow> int" where
  "timespec_ns ts = sint (tv_sec ts) * 1000000000 + sint (tv_nsec ts)"

definition representable :: "timespec \<Rightarrow> bool" where
  "representable ts = (0 \<le> timespec_ns ts \<and> timespec_ns ts < 2 ^ 64)"

section \<open>Several threads\<close>

text \<open>
  The operations again, now with one step for every atomic access and every call of
  \<open>ns_since_epoch\<close>, so that the steps of different threads can be interleaved. A thread
  is at one of the program points below; the comment of each names the statement it is
  about to execute. The backoff helper and the spin count touch neither the lock nor the
  control flow and are left out; \<^verbatim>\<open>expected\<close> is false at every compare-and-exchange.

  A thread that holds nothing may call any acquire operation with a valid handle; a
  thread whose acquire returned \<open>thrd_success\<close> calls the matching release, or stays
  where it is. A thread that acquires again while holding is two threads of the model.
\<close>

datatype pc =
    Idle \<comment> \<open>holds nothing, no call in progress\<close>
  | Hold_shared \<comment> \<open>a shared acquire has returned \<open>thrd_success\<close>\<close>
  | Hold_exclusive \<comment> \<open>an exclusive acquire has returned \<open>thrd_success\<close>\<close>
  | LS_wait \<comment> \<open>\<^verbatim>\<open>smtx_lock_shared\<close>: \<^verbatim>\<open>while (load(writer_locked, acquire))\<close>\<close>
  | LS_add \<comment> \<open>\<^verbatim>\<open>fetch_add(reader_count, 1, relaxed)\<close>\<close>
  | LS_check \<comment> \<open>\<^verbatim>\<open>if (!load(writer_locked, acquire)) return thrd_success\<close>\<close>
  | LS_sub \<comment> \<open>\<^verbatim>\<open>fetch_sub(reader_count, 1, release)\<close>, then around the outer loop\<close>
  | TS_wait \<comment> \<open>\<^verbatim>\<open>smtx_trylock_shared\<close>: \<^verbatim>\<open>if (load(writer_locked, acquire)) return thrd_busy\<close>\<close>
  | TS_add \<comment> \<open>\<^verbatim>\<open>fetch_add(reader_count, 1, relaxed)\<close>\<close>
  | TS_check \<comment> \<open>\<^verbatim>\<open>if (load(writer_locked, acquire))\<close>\<close>
  | TS_sub \<comment> \<open>\<^verbatim>\<open>fetch_sub(reader_count, 1, release); return thrd_busy\<close>\<close>
  | DS_clock \<comment> \<open>\<^verbatim>\<open>smtx_timedlock_shared\<close>: \<^verbatim>\<open>while (ns_since_epoch() < deadline)\<close>\<close>
  | DS_wait \<comment> \<open>\<^verbatim>\<open>if (load(writer_locked, acquire)) { ...; continue; }\<close>\<close>
  | DS_add \<comment> \<open>\<^verbatim>\<open>fetch_add(reader_count, 1, relaxed)\<close>\<close>
  | DS_check \<comment> \<open>\<^verbatim>\<open>if (!load(writer_locked, acquire)) return thrd_success\<close>\<close>
  | DS_sub \<comment> \<open>\<^verbatim>\<open>fetch_sub(reader_count, 1, release)\<close>, then around the loop\<close>
  | US_assert \<comment> \<open>\<^verbatim>\<open>smtx_unlock_shared\<close>: \<^verbatim>\<open>SMTX_ASSERT(load(reader_count, relaxed) > 0)\<close>\<close>
  | US_sub \<comment> \<open>\<^verbatim>\<open>fetch_sub(reader_count, 1, release); return thrd_success\<close>\<close>
  | LE_cas \<comment> \<open>\<^verbatim>\<open>smtx_lock_exclusive\<close>: \<^verbatim>\<open>while (!compare_exchange_weak(writer_locked, false, true))\<close>\<close>
  | LE_drain \<comment> \<open>\<^verbatim>\<open>while (load(reader_count, acquire) > 0)\<close>, then \<^verbatim>\<open>return thrd_success\<close>\<close>
  | TE_cas \<comment> \<open>\<^verbatim>\<open>smtx_trylock_exclusive\<close>: \<^verbatim>\<open>if (!compare_exchange_weak(...)) return thrd_busy\<close>\<close>
  | TE_check \<comment> \<open>\<^verbatim>\<open>if (load(reader_count, acquire) > 0)\<close>, else \<^verbatim>\<open>return thrd_success\<close>\<close>
  | TE_store \<comment> \<open>\<^verbatim>\<open>store(writer_locked, false, release); return thrd_busy\<close>\<close>
  | DE_cas \<comment> \<open>\<^verbatim>\<open>smtx_timedlock_exclusive\<close>: \<^verbatim>\<open>while (!compare_exchange_weak(...))\<close>\<close>
  | DE_clock1 \<comment> \<open>\<^verbatim>\<open>if (ns_since_epoch() >= deadline) return thrd_timedout\<close>\<close>
  | DE_drain \<comment> \<open>\<^verbatim>\<open>while (load(reader_count, acquire) > 0)\<close>, then \<^verbatim>\<open>return thrd_success\<close>\<close>
  | DE_clock2 \<comment> \<open>\<^verbatim>\<open>if (ns_since_epoch() >= deadline)\<close>\<close>
  | DE_store \<comment> \<open>\<^verbatim>\<open>store(writer_locked, false, release); return thrd_timedout\<close>\<close>
  | UE_assert \<comment> \<open>\<^verbatim>\<open>smtx_unlock_exclusive\<close>: \<^verbatim>\<open>SMTX_ASSERT(load(writer_locked, relaxed))\<close>\<close>
  | UE_store \<comment> \<open>\<^verbatim>\<open>store(writer_locked, false, release); return thrd_success\<close>\<close>

text \<open>The acquire operation that an idle thread calls, with its deadline argument.\<close>

datatype call =
    Lock_shared
  | Trylock_shared
  | Timedlock_shared timespec
  | Lock_exclusive
  | Trylock_exclusive
  | Timedlock_exclusive timespec

text \<open>
  What a step may depend on besides the memory and the thread: the operation called
  (used by an idle thread), whether a weak compare-and-exchange fails spuriously, what a
  call of \<open>ns_since_epoch\<close> meets, and how many writes behind the latest one a load
  reads (\<open>stale = 0\<close>: the load returns the latest value).
\<close>

record choice =
  called :: call
  cas_fails :: bool
  at_clock :: clock_call
  stale :: nat

fun entry :: "call \<Rightarrow> pc" where
  "entry Lock_shared = LS_wait"
| "entry Trylock_shared = TS_wait"
| "entry (Timedlock_shared tp) = DS_clock"
| "entry Lock_exclusive = LE_cas"
| "entry Trylock_exclusive = TE_cas"
| "entry (Timedlock_exclusive tp) = DE_cas"

fun call_deadline :: "call \<Rightarrow> smtx_ns_t \<Rightarrow> smtx_ns_t" where
  "call_deadline (Timedlock_shared tp) d = ns_from_timespec tp"
| "call_deadline (Timedlock_exclusive tp) d = ns_from_timespec tp"
| "call_deadline c d = d"

text \<open>
  One step of a thread at a program point, given the deadline \<open>d\<close> of its call and the
  lock value \<open>l\<close> that its access sees: the lock value after the access and the next
  program point, or the failed assertion.
\<close>

fun pc_step :: "config \<Rightarrow> choice \<Rightarrow> smtx_ns_t \<Rightarrow> smtx_t \<Rightarrow> pc \<Rightarrow> abort + smtx_t \<times> pc" where
  "pc_step cfg c d l Idle = Inr (l, entry (called c))"
| "pc_step cfg c d l Hold_shared =
     Inr (l, if debug cfg \<and> assert_active cfg then US_assert else US_sub)"
| "pc_step cfg c d l Hold_exclusive =
     Inr (l, if debug cfg \<and> assert_active cfg then UE_assert else UE_store)"
| "pc_step cfg c d l LS_wait = Inr (l, if writer_locked l then LS_wait else LS_add)"
| "pc_step cfg c d l LS_add = Inr (fetch_add_reader_count l, LS_check)"
| "pc_step cfg c d l LS_check = Inr (l, if \<not> writer_locked l then Hold_shared else LS_sub)"
| "pc_step cfg c d l LS_sub = Inr (fetch_sub_reader_count l, LS_wait)"
| "pc_step cfg c d l TS_wait = Inr (l, if writer_locked l then Idle else TS_add)"
| "pc_step cfg c d l TS_add = Inr (fetch_add_reader_count l, TS_check)"
| "pc_step cfg c d l TS_check = Inr (l, if writer_locked l then TS_sub else Hold_shared)"
| "pc_step cfg c d l TS_sub = Inr (fetch_sub_reader_count l, Idle)"
| "pc_step cfg c d l DS_clock =
     (case ns_since_epoch cfg (at_clock c) of
        Inl a \<Rightarrow> Inl a
      | Inr (now, _) \<Rightarrow> Inr (l, if now < d then DS_wait else Idle))"
| "pc_step cfg c d l DS_wait = Inr (l, if writer_locked l then DS_clock else DS_add)"
| "pc_step cfg c d l DS_add = Inr (fetch_add_reader_count l, DS_check)"
| "pc_step cfg c d l DS_check = Inr (l, if \<not> writer_locked l then Hold_shared else DS_sub)"
| "pc_step cfg c d l DS_sub = Inr (fetch_sub_reader_count l, DS_clock)"
| "pc_step cfg c d l US_assert =
     (if reader_count l > 0 then Inr (l, US_sub) else Inl Assertion_failed)"
| "pc_step cfg c d l US_sub = Inr (fetch_sub_reader_count l, Idle)"
| "pc_step cfg c d l LE_cas =
     (case atomic_compare_exchange_weak (cas_fails c) (writer_locked l) False True of
        (True, obj, _) \<Rightarrow> Inr (store_writer_locked obj l, LE_drain)
      | (False, _, _) \<Rightarrow> Inr (l, LE_cas))"
| "pc_step cfg c d l LE_drain = Inr (l, if reader_count l > 0 then LE_drain else Hold_exclusive)"
| "pc_step cfg c d l TE_cas =
     (case atomic_compare_exchange_weak (cas_fails c) (writer_locked l) False True of
        (True, obj, _) \<Rightarrow> Inr (store_writer_locked obj l, TE_check)
      | (False, _, _) \<Rightarrow> Inr (l, Idle))"
| "pc_step cfg c d l TE_check = Inr (l, if reader_count l > 0 then TE_store else Hold_exclusive)"
| "pc_step cfg c d l TE_store = Inr (store_writer_locked False l, Idle)"
| "pc_step cfg c d l DE_cas =
     (case atomic_compare_exchange_weak (cas_fails c) (writer_locked l) False True of
        (True, obj, _) \<Rightarrow> Inr (store_writer_locked obj l, DE_drain)
      | (False, _, _) \<Rightarrow> Inr (l, DE_clock1))"
| "pc_step cfg c d l DE_clock1 =
     (case ns_since_epoch cfg (at_clock c) of
        Inl a \<Rightarrow> Inl a
      | Inr (now, _) \<Rightarrow> Inr (l, if now \<ge> d then Idle else DE_cas))"
| "pc_step cfg c d l DE_drain = Inr (l, if reader_count l > 0 then DE_clock2 else Hold_exclusive)"
| "pc_step cfg c d l DE_clock2 =
     (case ns_since_epoch cfg (at_clock c) of
        Inl a \<Rightarrow> Inl a
      | Inr (now, _) \<Rightarrow> Inr (l, if now \<ge> d then DE_store else DE_drain))"
| "pc_step cfg c d l DE_store = Inr (store_writer_locked False l, Idle)"
| "pc_step cfg c d l UE_assert =
     (if writer_locked l then Inr (l, UE_store) else Inl Assertion_failed)"
| "pc_step cfg c d l UE_store = Inr (store_writer_locked False l, Idle)"

subsection \<open>Memory\<close>

text \<open>
  The memory orders of the header decide which value a load may return. Each of the two
  atomic objects is the list of the writes made to it, oldest first, starting with the
  write of \<^verbatim>\<open>atomic_init\<close>; the position in the list is the modification order. A view
  gives, for each object, the position of a write: a thread's view holds the latest
  writes it has observed, and the view stored with a write holds what a load with
  acquire order learns from reading that write.
  \<^item> A load reads any write at or after the position in the thread's view and moves the
    view there; with acquire order the view of the write read is joined in.
  \<^item> A read-modify-write (\<^verbatim>\<open>fetch_add\<close>, \<^verbatim>\<open>fetch_sub\<close>, a compare-and-exchange that
    succeeds) reads the last write and appends its own. Its write carries the view of
    the write it read, and with release order the thread's view too; with acquire order
    the thread joins in the view of the write read.
  \<^item> A compare-and-exchange that fails writes nothing; its order on failure is relaxed
    and the value it read is not used.
  \<^item> A store with release order appends a write that carries the thread's view.
  There is no sequentially consistent access in the header, hence none here.
\<close>

datatype order = Relaxed | Acquire | Release

datatype access =
    Local
  | Load_rc order
  | Load_wl order
  | Rmw_rc order
  | Cas_wl
  | Store_wl

fun access_at :: "pc \<Rightarrow> access" where
  "access_at LS_wait = Load_wl Acquire"
| "access_at LS_add = Rmw_rc Relaxed"
| "access_at LS_check = Load_wl Acquire"
| "access_at LS_sub = Rmw_rc Release"
| "access_at TS_wait = Load_wl Acquire"
| "access_at TS_add = Rmw_rc Relaxed"
| "access_at TS_check = Load_wl Acquire"
| "access_at TS_sub = Rmw_rc Release"
| "access_at DS_wait = Load_wl Acquire"
| "access_at DS_add = Rmw_rc Relaxed"
| "access_at DS_check = Load_wl Acquire"
| "access_at DS_sub = Rmw_rc Release"
| "access_at US_assert = Load_rc Relaxed"
| "access_at US_sub = Rmw_rc Release"
| "access_at LE_cas = Cas_wl"
| "access_at LE_drain = Load_rc Acquire"
| "access_at TE_cas = Cas_wl"
| "access_at TE_check = Load_rc Acquire"
| "access_at TE_store = Store_wl"
| "access_at DE_cas = Cas_wl"
| "access_at DE_drain = Load_rc Acquire"
| "access_at DE_store = Store_wl"
| "access_at UE_assert = Load_wl Relaxed"
| "access_at UE_store = Store_wl"
| "access_at p = Local"

type_synonym view = "nat \<times> nat"

definition join :: "view \<Rightarrow> view \<Rightarrow> view" where
  "join v w = (max (fst v) (fst w), max (snd v) (snd w))"

record memory =
  rc_writes :: "(uint \<times> view) list"
  wl_writes :: "(bool \<times> view) list"

text \<open>The lock as its latest writes give it.\<close>

definition current :: "memory \<Rightarrow> smtx_t" where
  "current m =
     \<lparr>reader_count = fst (last (rc_writes m)), writer_locked = fst (last (wl_writes m))\<rparr>"

text \<open>
  The position a load reads, for \<open>n\<close> writes, the position \<open>seen\<close> of the thread's view
  and the choice \<open>back\<close>; and the write at a position (the last one, for a position at
  or past the end).
\<close>

definition read_index :: "nat \<Rightarrow> nat \<Rightarrow> nat \<Rightarrow> nat" where
  "read_index n seen back = max seen (n - 1 - back)"

definition write_at :: "('a \<times> view) list \<Rightarrow> nat \<Rightarrow> 'a \<times> view" where
  "write_at ws i = (if Suc i < length ws then ws ! i else last ws)"

text \<open>The lock value that an access sees, and the thread's view after the reading.\<close>

definition observed :: "memory \<Rightarrow> view \<Rightarrow> nat \<Rightarrow> access \<Rightarrow> smtx_t \<times> view" where
  "observed m v back a =
     (case a of
        Load_rc ord \<Rightarrow>
          let i = read_index (length (rc_writes m)) (fst v) back;
              (x, mv) = write_at (rc_writes m) i;
              v1 = (i, snd v)
          in ((current m)\<lparr>reader_count := x\<rparr>, if ord = Acquire then join v1 mv else v1)
      | Load_wl ord \<Rightarrow>
          let i = read_index (length (wl_writes m)) (snd v) back;
              (x, mv) = write_at (wl_writes m) i;
              v1 = (fst v, i)
          in ((current m)\<lparr>writer_locked := x\<rparr>, if ord = Acquire then join v1 mv else v1)
      | _ \<Rightarrow> (current m, v))"

text \<open>
  The memory and the thread's view after the writing part of an access that leaves the
  lock value \<open>l'\<close>.
\<close>

definition written :: "memory \<Rightarrow> view \<Rightarrow> access \<Rightarrow> smtx_t \<Rightarrow> memory \<times> view" where
  "written m v a l' =
     (case a of
        Rmw_rc ord \<Rightarrow>
          let n = length (rc_writes m);
              v1 = (n, snd v);
              carried = join (snd (last (rc_writes m))) (n, 0)
          in (m\<lparr>rc_writes := rc_writes m
                 @ [(reader_count l', if ord = Release then join v1 carried else carried)]\<rparr>,
              v1)
      | Cas_wl \<Rightarrow>
          if writer_locked l' = writer_locked (current m) then (m, v)
          else
            let n = length (wl_writes m);
                carried = join (snd (last (wl_writes m))) (0, n)
            in (m\<lparr>wl_writes := wl_writes m @ [(writer_locked l', carried)]\<rparr>,
                join (fst v, n) (snd (last (wl_writes m))))
      | Store_wl \<Rightarrow>
          let n = length (wl_writes m);
              v1 = (fst v, n)
          in (m\<lparr>wl_writes := wl_writes m @ [(writer_locked l', v1)]\<rparr>, v1)
      | _ \<Rightarrow> (m, v))"

subsection \<open>Steps\<close>

record thread =
  thr_pc :: pc
  thr_deadline :: smtx_ns_t
  thr_view :: view
  thr_aborted :: bool

definition thread_step :: "config \<Rightarrow> choice \<Rightarrow> memory \<Rightarrow> thread \<Rightarrow> memory \<times> thread" where
  "thread_step cfg c m t =
     (let a = access_at (thr_pc t);
          (seen, v1) = observed m (thr_view t) (stale c) a
      in case pc_step cfg c (thr_deadline t) seen (thr_pc t) of
           Inl _ \<Rightarrow> (m, t\<lparr>thr_aborted := True\<rparr>)
         | Inr (l', p') \<Rightarrow>
             let (m', v2) = written m v1 a l'
             in (m', \<lparr>thr_pc = p',
                      thr_deadline =
                        (if thr_pc t = Idle then call_deadline (called c) (thr_deadline t)
                         else thr_deadline t),
                      thr_view = v2,
                      thr_aborted = False\<rparr>))"

text \<open>
  The system: the memory of one lock and the threads using it. A schedule is a list of
  pairs of a thread index and a choice; each makes that thread take one step. Once an
  assertion has failed the process has halted and nothing steps.
\<close>

record system =
  sys_memory :: memory
  sys_threads :: "thread list"


definition halted :: "system \<Rightarrow> bool" where
  "halted sys = list_ex thr_aborted (sys_threads sys)"

definition system_step :: "config \<Rightarrow> nat \<times> choice \<Rightarrow> system \<Rightarrow> system" where
  "system_step cfg e sys =
     (let (i, c) = e in
      if i < length (sys_threads sys) \<and> \<not> halted sys then
        let (m', t') = thread_step cfg c (sys_memory sys) (sys_threads sys ! i) in
        \<lparr>sys_memory = m', sys_threads = (sys_threads sys)[i := t']\<rparr>
      else sys)"

fun system_run :: "config \<Rightarrow> (nat \<times> choice) list \<Rightarrow> system \<Rightarrow> system" where
  "system_run cfg [] sys = sys"
| "system_run cfg (e # schedule) sys = system_run cfg schedule (system_step cfg e sys)"












text \<open>
  Program points at which the thread's own increment of the reader count is in effect,
  and those at which the writer flag is set by the thread itself; program points that
  lie between the return of a successful acquire and the write of the release.
\<close>

definition counted_reader :: "pc \<Rightarrow> bool" where
  "counted_reader p =
     (p \<in> {LS_check, LS_sub, TS_check, TS_sub, DS_check, DS_sub, Hold_shared, US_assert, US_sub})"

definition flag_owner :: "pc \<Rightarrow> bool" where
  "flag_owner p =
     (p \<in> {LE_drain, TE_check, TE_store, DE_drain, DE_clock2, DE_store, Hold_exclusive,
           UE_assert, UE_store})"

definition in_shared :: "pc \<Rightarrow> bool" where
  "in_shared p = (p \<in> {Hold_shared, US_assert, US_sub})"

definition in_exclusive :: "pc \<Rightarrow> bool" where
  "in_exclusive p = (p \<in> {Hold_exclusive, UE_assert, UE_store})"



section \<open>Properties\<close>

subsection \<open>Helpers\<close>

lemmas atomic_defs =
  fetch_add_reader_count_def fetch_sub_reader_count_def store_writer_locked_def
  atomic_compare_exchange_weak_def

lemma SPIN_from_replicate:
  "unat i \<le> unat delay \<Longrightarrow> SPIN_from i delay = replicate (unat delay - unat i) Pause"
proof (induction i delay rule: SPIN_from.induct)
  case (1 i delay)
  show ?case
  proof (cases "i < delay")
    case True
    then have suc: "unat (i + 1) = Suc (unat i)"
      by unat_arith
    from True have lt: "unat i < unat delay"
      by (simp add: word_less_nat_alt)
    with suc have "SPIN_from (i + 1) delay = replicate (unat delay - unat (i + 1)) Pause"
      using "1.IH" [OF True] by simp
    moreover have "SPIN_from i delay = Pause # SPIN_from (i + 1) delay"
      using True by (subst SPIN_from.simps) simp
    moreover from lt suc have "unat delay - unat i = Suc (unat delay - unat (i + 1))"
      by simp
    ultimately show ?thesis
      by simp
  next
    case False
    with "1.prems" have "unat delay = unat i"
      by (simp add: word_less_nat_alt)
    moreover have "SPIN_from i delay = []"
      using False by (subst SPIN_from.simps) simp
    ultimately show ?thesis
      by simp
  qed
qed

lemma SPIN_replicate: "SPIN delay = replicate (unat delay) Pause"
  by (simp add: SPIN_def SPIN_from_replicate)

text \<open>
  What a call that returns has found and done, when nothing else touches the lock
  meanwhile.
\<close>

lemma writer_locked_fetch [simp]:
  "writer_locked (fetch_add_reader_count s) = writer_locked s"
  "writer_locked (fetch_sub_reader_count s) = writer_locked s"
  "reader_count (store_writer_locked v s) = reader_count s"
  "writer_locked (store_writer_locked v s) = v"
  by (simp_all add: atomic_defs)

lemma fetch_sub_fetch_add [simp]: "fetch_sub_reader_count (fetch_add_reader_count s) = s"
  by (simp add: atomic_defs)

lemma lock_shared_loop_Some:
  "lock_shared_loop cfg fuel spins s ev = Some (r, h, ev') \<Longrightarrow>
     r = thrd_success \<and> \<not> writer_locked s \<and> h = Some (fetch_add_reader_count s)"
  by (induction fuel arbitrary: spins ev) (auto simp add: Let_def split: if_splits)

lemma lock_shared_loop_free:
  "\<not> writer_locked s \<Longrightarrow>
     lock_shared_loop cfg (Suc fuel) spins s ev = Some (thrd_success, Some (fetch_add_reader_count s), ev)"
  by (simp add: Let_def)

lemma timedlock_shared_loop_success:
  "timedlock_shared_loop cfg deadline clock spins s ev = Some (Inr (thrd_success, h, ev')) \<Longrightarrow>
     \<not> writer_locked s \<and> h = Some (fetch_add_reader_count s)"
  by (induction clock arbitrary: spins ev)
    (auto simp add: Let_def split: if_splits sum.splits prod.splits)

lemma timedlock_exclusive_drain_Nil:
  "timedlock_exclusive_drain cfg deadline [] spins s ev =
     (if reader_count s > 0 then None else Some (Inr (thrd_success, Some s, ev)))"
  by (subst timedlock_exclusive_drain.simps) simp

lemma timedlock_exclusive_drain_Cons:
  "timedlock_exclusive_drain cfg deadline (r # clock) spins s ev =
     (if reader_count s > 0 then
        (case ns_since_epoch cfg r of
           Inl a \<Rightarrow> Some (Inl a)
         | Inr (now, cev) \<Rightarrow>
             if now \<ge> deadline then
               Some (Inr (thrd_timedout, Some (store_writer_locked False s), ev @ cev))
             else
               timedlock_exclusive_drain cfg deadline clock
                 (advance_spins cfg (max_reader_wait_spins cfg) spins) s
                 (ev @ cev @ spin_with_yield cfg spins))
      else Some (Inr (thrd_success, Some s, ev)))"
  by (subst timedlock_exclusive_drain.simps) simp

lemma timedlock_exclusive_claim_held:
  "writer_locked s \<or> (spurious \<noteq> [] \<and> hd spurious) \<Longrightarrow>
     timedlock_exclusive_claim cfg deadline spurious clock False spins s ev =
       (case clock of
          [] \<Rightarrow> None
        | r # clock' \<Rightarrow>
            (case ns_since_epoch cfg r of
               Inl a \<Rightarrow> Some (Inl a)
             | Inr (now, cev) \<Rightarrow>
                 if now \<ge> deadline then Some (Inr (thrd_timedout, Some s, ev @ cev))
                 else
                   timedlock_exclusive_claim cfg deadline (tl spurious) clock' False
                     (advance_spins cfg (max_reader_wait_spins cfg) spins) s
                     (ev @ cev @ spin_with_yield cfg spins)))"
  by (subst timedlock_exclusive_claim.simps) (auto simp add: atomic_compare_exchange_weak_def)

lemma timedlock_exclusive_claim_free:
  "\<not> writer_locked s \<Longrightarrow> \<not> (spurious \<noteq> [] \<and> hd spurious) \<Longrightarrow>
     timedlock_exclusive_claim cfg deadline spurious clock False spins s ev =
       timedlock_exclusive_drain cfg deadline clock spins (store_writer_locked True s) ev"
  by (subst timedlock_exclusive_claim.simps) (auto simp add: atomic_compare_exchange_weak_def)

lemma timedlock_exclusive_drain_success:
  "timedlock_exclusive_drain cfg deadline clock spins s ev = Some (Inr (thrd_success, h, ev')) \<Longrightarrow>
     reader_count s = 0 \<and> h = Some s"
  by (induction clock arbitrary: spins ev)
    (auto simp add: timedlock_exclusive_drain_Nil timedlock_exclusive_drain_Cons
      word_greater_zero_iff split: if_splits sum.splits prod.splits)

lemma timedlock_exclusive_claim_success:
  "timedlock_exclusive_claim cfg deadline spurious clock False spins s ev
       = Some (Inr (thrd_success, h, ev')) \<Longrightarrow>
     \<not> writer_locked s \<and> reader_count s = 0 \<and> h = Some (store_writer_locked True s)"
proof (induction clock arbitrary: spurious spins ev)
  case Nil
  then show ?case
    by (cases "writer_locked s \<or> (spurious \<noteq> [] \<and> hd spurious)")
      (auto simp add: timedlock_exclusive_claim_held timedlock_exclusive_claim_free
        dest: timedlock_exclusive_drain_success)
next
  case (Cons r clock)
  show ?case
  proof (cases "writer_locked s \<or> (spurious \<noteq> [] \<and> hd spurious)")
    case True
    with Cons.prems show ?thesis
      by (auto simp add: timedlock_exclusive_claim_held dest: Cons.IH
          split: if_splits sum.splits prod.splits)
  next
    case False
    with Cons.prems show ?thesis
      by (auto simp add: timedlock_exclusive_claim_free dest: timedlock_exclusive_drain_success)
  qed
qed

lemma clock_before_Inr:
  "clock_before cfg d r \<Longrightarrow> \<exists>t. ns_since_epoch cfg r = Inr (t, clock_events cfg) \<and> t < d"
  by (auto simp add: clock_before_def ns_since_epoch_def clock_events_def
      split: if_splits option.splits)

lemma clock_past_Inr:
  "clock_past cfg d r \<Longrightarrow> \<exists>t. ns_since_epoch cfg r = Inr (t, clock_events cfg) \<and> d \<le> t"
  by (auto simp add: clock_past_def ns_since_epoch_def clock_events_def
      split: if_splits option.splits)

lemma timedlock_shared_loop_wait:
  "writer_locked s \<Longrightarrow> \<forall>b \<in> set before. clock_before cfg deadline b \<Longrightarrow>
   clock_past cfg deadline now \<Longrightarrow>
     timedlock_shared_loop cfg deadline (before @ now # after) spins s ev =
       Some (Inr (thrd_timedout, Some s,
         ev @ backoff_events cfg (max_writer_wait_spins cfg) spins (length before)
           @ clock_events cfg))"
proof (induction before arbitrary: spins ev)
  case Nil
  from clock_past_Inr [OF Nil(3)] show ?case
    by (auto simp add: not_less [symmetric])
next
  case (Cons b before)
  from Cons.prems(2) have "clock_before cfg deadline b"
    by simp
  from clock_before_Inr [OF this] Cons show ?case
    by auto
qed

lemma timedlock_exclusive_claim_wait:
  "writer_locked s \<Longrightarrow> \<forall>b \<in> set before. clock_before cfg deadline b \<Longrightarrow>
   clock_past cfg deadline now \<Longrightarrow>
     timedlock_exclusive_claim cfg deadline spurious (before @ now # after) False spins s ev =
       Some (Inr (thrd_timedout, Some s,
         ev @ backoff_events cfg (max_reader_wait_spins cfg) spins (length before)
           @ clock_events cfg))"
proof (induction before arbitrary: spins ev spurious)
  case Nil
  from clock_past_Inr [OF Nil(3)] Nil(1) show ?case
    by (auto simp add: timedlock_exclusive_claim_held)
next
  case (Cons b before)
  from Cons.prems(2) have "clock_before cfg deadline b"
    by simp
  from clock_before_Inr [OF this] Cons show ?case
    by (auto simp add: timedlock_exclusive_claim_held not_le [symmetric])
qed

lemma timedlock_exclusive_drain_wait:
  "reader_count s > 0 \<Longrightarrow> \<forall>b \<in> set before. clock_before cfg deadline b \<Longrightarrow>
   clock_past cfg deadline now \<Longrightarrow>
     timedlock_exclusive_drain cfg deadline (before @ now # after) spins s ev =
       Some (Inr (thrd_timedout, Some (store_writer_locked False s),
         ev @ backoff_events cfg (max_reader_wait_spins cfg) spins (length before)
           @ clock_events cfg))"
proof (induction before arbitrary: spins ev)
  case Nil
  from clock_past_Inr [OF Nil(3)] Nil(1) show ?case
    by (auto simp add: timedlock_exclusive_drain_Cons)
next
  case (Cons b before)
  from Cons.prems(2) have "clock_before cfg deadline b"
    by simp
  from clock_before_Inr [OF this] Cons show ?case
    by (auto simp add: timedlock_exclusive_drain_Cons not_le [symmetric])
qed

lemma clock_past_iff:
  "ns_since_epoch cfg r = Inr (t, e) \<Longrightarrow> clock_past cfg d r = (d \<le> t)"
  by (simp add: clock_past_def)

lemma timedlock_shared_loop_timedout:
  "timedlock_shared_loop cfg deadline clock spins s ev = Some (Inr (thrd_timedout, h, ev')) \<Longrightarrow>
     \<exists>r \<in> set clock. clock_past cfg deadline r"
proof (induction clock arbitrary: spins s ev)
  case Nil
  then show ?case
    by simp
next
  case (Cons r clock)
  show ?case
  proof (cases "ns_since_epoch cfg r")
    case (Inl a)
    with Cons.prems show ?thesis
      by simp
  next
    case (Inr te)
    then obtain t e where te: "ns_since_epoch cfg r = Inr (t, e)"
      by (cases te) simp
    show ?thesis
    proof (cases "t < deadline")
      case True
      with Cons.prems te have "\<exists>spins' s' ev''.
          timedlock_shared_loop cfg deadline clock spins' s' ev'' = Some (Inr (thrd_timedout, h, ev'))"
        by (auto simp add: Let_def split: if_splits)
      with Cons.IH show ?thesis
        by auto
    next
      case False
      with te have "clock_past cfg deadline r"
        by (simp add: clock_past_iff)
      then show ?thesis
        by simp
    qed
  qed
qed

lemma timedlock_exclusive_drain_timedout:
  "timedlock_exclusive_drain cfg deadline clock spins s ev = Some (Inr (thrd_timedout, h, ev')) \<Longrightarrow>
     \<exists>r \<in> set clock. clock_past cfg deadline r"
proof (induction clock arbitrary: spins ev)
  case Nil
  then show ?case
    by (simp add: timedlock_exclusive_drain_Nil split: if_splits)
next
  case (Cons r clock)
  show ?case
  proof (cases "ns_since_epoch cfg r")
    case (Inl a)
    with Cons.prems show ?thesis
      by (simp add: timedlock_exclusive_drain_Cons split: if_splits)
  next
    case (Inr te)
    then obtain t e where te: "ns_since_epoch cfg r = Inr (t, e)"
      by (cases te) simp
    show ?thesis
    proof (cases "deadline \<le> t")
      case True
      with te have "clock_past cfg deadline r"
        by (simp add: clock_past_iff)
      then show ?thesis
        by simp
    next
      case False
      with Cons.prems te have "\<exists>spins' ev''.
          timedlock_exclusive_drain cfg deadline clock spins' s ev'' = Some (Inr (thrd_timedout, h, ev'))"
        by (auto simp add: timedlock_exclusive_drain_Cons split: if_splits)
      with Cons.IH show ?thesis
        by auto
    qed
  qed
qed

lemma timedlock_exclusive_claim_timedout:
  "timedlock_exclusive_claim cfg deadline spurious clock False spins s ev
       = Some (Inr (thrd_timedout, h, ev')) \<Longrightarrow>
     \<exists>r \<in> set clock. clock_past cfg deadline r"
proof (induction clock arbitrary: spurious spins ev)
  case Nil
  then show ?case
    by (cases "writer_locked s \<or> (spurious \<noteq> [] \<and> hd spurious)")
      (auto simp add: timedlock_exclusive_claim_held timedlock_exclusive_claim_free
        timedlock_exclusive_drain_Nil split: if_splits)
next
  case (Cons r clock)
  show ?case
  proof (cases "writer_locked s \<or> (spurious \<noteq> [] \<and> hd spurious)")
    case held: True
    show ?thesis
    proof (cases "ns_since_epoch cfg r")
      case (Inl a)
      with Cons.prems held show ?thesis
        by (simp add: timedlock_exclusive_claim_held)
    next
      case (Inr te)
      then obtain t e where te: "ns_since_epoch cfg r = Inr (t, e)"
        by (cases te) simp
      show ?thesis
      proof (cases "deadline \<le> t")
        case True
        with te have "clock_past cfg deadline r"
          by (simp add: clock_past_iff)
        then show ?thesis
          by simp
      next
        case False
        with Cons.prems te held have "\<exists>spurious' spins' ev''.
            timedlock_exclusive_claim cfg deadline spurious' clock False spins' s ev''
              = Some (Inr (thrd_timedout, h, ev'))"
          by (auto simp add: timedlock_exclusive_claim_held)
        with Cons.IH show ?thesis
          by auto
      qed
    qed
  next
    case False
    with Cons.prems have
      "timedlock_exclusive_drain cfg deadline (r # clock) spins (store_writer_locked True s) ev
         = Some (Inr (thrd_timedout, h, ev'))"
      by (simp add: timedlock_exclusive_claim_free)
    then show ?thesis
      by (rule timedlock_exclusive_drain_timedout)
  qed
qed

lemma spin_with_yield_caps [simp]:
  "spin_with_yield (cfg\<lparr>max_writer_wait_spins := w\<rparr>) = spin_with_yield cfg"
  "spin_with_yield (cfg\<lparr>max_reader_wait_spins := r\<rparr>) = spin_with_yield cfg"
  by (simp_all add: spin_with_yield_def fun_eq_iff)

lemma advance_spins_caps [simp]:
  "advance_spins (cfg\<lparr>max_writer_wait_spins := w\<rparr>) = advance_spins cfg"
  "advance_spins (cfg\<lparr>max_reader_wait_spins := r\<rparr>) = advance_spins cfg"
  by (simp_all add: advance_spins_def fun_eq_iff)

lemma ns_since_epoch_caps [simp]:
  "ns_since_epoch (cfg\<lparr>max_writer_wait_spins := w\<rparr>) = ns_since_epoch cfg"
  "ns_since_epoch (cfg\<lparr>max_reader_wait_spins := r\<rparr>) = ns_since_epoch cfg"
  by (simp_all add: ns_since_epoch_def fun_eq_iff)

lemma timedlock_exclusive_drain_writer_cap:
  "timedlock_exclusive_drain (cfg\<lparr>max_writer_wait_spins := w\<rparr>) deadline clock spins s ev =
     timedlock_exclusive_drain cfg deadline clock spins s ev"
  by (induction clock arbitrary: spins ev)
    (simp_all add: timedlock_exclusive_drain_Nil timedlock_exclusive_drain_Cons
      split: sum.splits prod.splits)

lemma timedlock_exclusive_claim_writer_cap:
  "timedlock_exclusive_claim (cfg\<lparr>max_writer_wait_spins := w\<rparr>) deadline spurious clock False spins s ev =
     timedlock_exclusive_claim cfg deadline spurious clock False spins s ev"
proof (induction clock arbitrary: spurious spins ev)
  case Nil
  show ?case
    by (cases "writer_locked s \<or> (spurious \<noteq> [] \<and> hd spurious)")
      (simp_all add: timedlock_exclusive_claim_held timedlock_exclusive_claim_free
        timedlock_exclusive_drain_writer_cap)
next
  case (Cons r clock)
  show ?case
    by (cases "writer_locked s \<or> (spurious \<noteq> [] \<and> hd spurious)")
      (simp_all add: timedlock_exclusive_claim_held timedlock_exclusive_claim_free
        timedlock_exclusive_drain_writer_cap Cons.IH split: sum.splits prod.splits)
qed

lemma timedlock_shared_loop_reader_cap:
  "timedlock_shared_loop (cfg\<lparr>max_reader_wait_spins := r\<rparr>) deadline clock spins s ev =
     timedlock_shared_loop cfg deadline clock spins s ev"
  by (induction clock arbitrary: spins s ev) (simp_all add: Let_def split: sum.splits prod.splits)

lemma lock_shared_loop_reader_cap:
  "lock_shared_loop (cfg\<lparr>max_reader_wait_spins := r\<rparr>) fuel spins s ev =
     lock_shared_loop cfg fuel spins s ev"
  by (induction fuel arbitrary: spins s ev) (simp_all add: Let_def)

lemma uint_ns_from_timespec:
  "uint (ns_from_timespec ts) = (sint (tv_sec ts) * 1000000000 + sint (tv_nsec ts)) mod 2 ^ 64"
proof -
  have "ns_from_timespec ts =
      word_of_int (sint (tv_sec ts)) * 1000000000 + word_of_int (sint (tv_nsec ts))"
    by (simp add: ns_from_timespec_def SMTX_NS_PER_S_def)
  also have "\<dots> = word_of_int (sint (tv_sec ts) * 1000000000 + sint (tv_nsec ts))"
    by simp
  finally show ?thesis
    by (simp only: uint_word_of_int) simp
qed

lemma uint_ns_representable:
  "representable ts \<Longrightarrow> uint (ns_from_timespec ts) = timespec_ns ts"
  by (simp add: uint_ns_from_timespec representable_def timespec_ns_def)

lemma ns_le_representable:
  "representable a \<Longrightarrow> representable b \<Longrightarrow>
     (ns_from_timespec a \<le> ns_from_timespec b) = (timespec_ns a \<le> timespec_ns b)"
  by (simp add: word_le_def uint_ns_representable)

lemma lock_exclusive_drain_Some:
  "lock_exclusive_drain cfg fuel spins s ev = Some (r, h, ev') \<Longrightarrow>
     r = thrd_success \<and> reader_count s = 0 \<and> h = Some s"
  by (induction fuel arbitrary: spins ev) (auto simp add: word_greater_zero_iff split: if_splits)

lemma lock_exclusive_claim_Some:
  "lock_exclusive_claim cfg fuel spurious False s = Some (r, h, ev') \<Longrightarrow>
     r = thrd_success \<and> \<not> writer_locked s \<and> reader_count s = 0
     \<and> h = Some (store_writer_locked True s)"
  by (induction fuel arbitrary: spurious)
    (auto simp add: atomic_compare_exchange_weak_def dest: lock_exclusive_drain_Some split: if_splits)


lemmas pc_class_defs = counted_reader_def flag_owner_def in_shared_def in_exclusive_def

lemma entry_class [simp]:
  "\<not> counted_reader (entry k)" "\<not> flag_owner (entry k)" "\<not> in_shared (entry k)"
  "\<not> in_exclusive (entry k)"
  by (cases k; simp add: pc_class_defs)+
















lemma system_step_length [simp]:
  "length (sys_threads (system_step cfg e sys)) = length (sys_threads sys)"
  by (cases e) (simp add: system_step_def Let_def split: prod.split)

lemma system_run_length [simp]:
  "length (sys_threads (system_run cfg schedule sys)) = length (sys_threads sys)"
  by (induction schedule arbitrary: sys) simp_all
















subsection \<open>The backoff helper\<close>

text \<open>
  C8. For every spin count \<open>n\<close>, \<open>spin_with_yield\<close> executes \<open>n\<close> pause hints and then
  yields if and only if \<open>n\<close> is strictly greater than the yield threshold, which is 512
  by default; at the threshold itself there is no yield.
\<close>

theorem spin_with_yield_events:
  "spin_with_yield cfg n =
     replicate (unat n) Pause @ (if n > yield_threshold cfg then [Yield] else [])
   \<and> (Yield \<in> set (spin_with_yield cfg n) \<longleftrightarrow> n > yield_threshold cfg)
   \<and> yield_threshold default_config = 512
   \<and> spin_with_yield default_config 512 = replicate 512 Pause
   \<and> spin_with_yield default_config 513 = replicate 513 Pause @ [Yield]"
  by (simp add: spin_with_yield_def SPIN_replicate default_config_def)

theorem spin_with_yield_events_witness:
  "spin_with_yield default_config 3 = replicate 3 Pause
   \<and> Yield \<notin> set (spin_with_yield default_config 3)"
  using spin_with_yield_events [of default_config 3] by (simp add: default_config_def)

subsection \<open>Null arguments\<close>

text \<open>
  C5. Each of the nine operations returns \<open>thrd_error\<close> for a null lock handle, with
  nothing changed and no event; the timed operations also return \<open>thrd_error\<close> for a
  null deadline, whatever the handle, leaving the lock as it is and without an event:
  \<open>ns_since_epoch\<close> is not called (the result is the same for every list of clock
  calls, the empty one included).
\<close>

theorem null_handle_error:
  "smtx_init None = (thrd_error, None)
   \<and> smtx_lock_shared cfg fuel None = Some (thrd_error, None, [])
   \<and> smtx_trylock_shared None = (thrd_error, None, [])
   \<and> smtx_timedlock_shared cfg clock None time_point = Some (Inr (thrd_error, None, []))
   \<and> smtx_unlock_shared cfg None = Inr (thrd_error, None)
   \<and> smtx_lock_exclusive cfg fuel spurious None = Some (thrd_error, None, [])
   \<and> smtx_trylock_exclusive fails None = (thrd_error, None, [])
   \<and> smtx_timedlock_exclusive cfg spurious clock None time_point = Some (Inr (thrd_error, None, []))
   \<and> smtx_unlock_exclusive cfg None = Inr (thrd_error, None)
   \<and> smtx_timedlock_shared cfg clock smtx None = Some (Inr (thrd_error, smtx, []))
   \<and> smtx_timedlock_exclusive cfg spurious clock smtx None = Some (Inr (thrd_error, smtx, []))"
  by (simp add: smtx_init_def smtx_lock_shared_def smtx_trylock_shared_def
      smtx_timedlock_shared_def smtx_unlock_shared_def smtx_lock_exclusive_def
      smtx_trylock_exclusive_def smtx_timedlock_exclusive_def smtx_unlock_exclusive_def
      split: option.split)

theorem null_handle_error_witness:
  "smtx_timedlock_shared default_config [] (Some \<lparr>reader_count = 1, writer_locked = True\<rparr>) None
     = Some (Inr (thrd_error, Some \<lparr>reader_count = 1, writer_locked = True\<rparr>, []))
   \<and> smtx_lock_exclusive default_config 0 [] None = Some (thrd_error, None, [])"
  using null_handle_error [of default_config 0 "[]" None "[]" False
      "Some \<lparr>reader_count = 1, writer_locked = True\<rparr>"]
  by simp

subsection \<open>The try variants\<close>

text \<open>
  C3. When \<open>smtx_trylock_shared\<close> or \<open>smtx_trylock_exclusive\<close> returns \<open>thrd_busy\<close>, the
  lock has the content it had before the call. In particular, when
  \<open>smtx_trylock_exclusive\<close> has claimed the flag and then sees a non-zero reader count,
  it stores false to the flag it had set and returns \<open>thrd_busy\<close>. The last conjunct is
  the way back of \<open>smtx_trylock_shared\<close>: the decrement undoes the increment.
\<close>

theorem trylock_busy_unchanged:
  "(smtx_trylock_shared (Some s) = (thrd_busy, h, ev) \<longrightarrow> h = Some s \<and> ev = [])
   \<and> (smtx_trylock_exclusive fails (Some s) = (thrd_busy, h', ev') \<longrightarrow> h' = Some s \<and> ev' = [])
   \<and> (\<not> writer_locked s \<and> \<not> fails \<and> reader_count s > 0 \<longrightarrow>
        smtx_trylock_exclusive fails (Some s) =
          (thrd_busy, Some (store_writer_locked False (store_writer_locked True s)), [])
        \<and> writer_locked (store_writer_locked True s)
        \<and> store_writer_locked False (store_writer_locked True s) = s)
   \<and> fetch_sub_reader_count (fetch_add_reader_count s) = s"
  by (auto simp add: smtx_trylock_shared_def smtx_trylock_exclusive_def atomic_defs Let_def
      split: if_splits)

theorem trylock_busy_unchanged_witness:
  "smtx_trylock_shared (Some \<lparr>reader_count = 0, writer_locked = True\<rparr>)
     = (thrd_busy, Some \<lparr>reader_count = 0, writer_locked = True\<rparr>, [])
   \<and> smtx_trylock_exclusive False (Some \<lparr>reader_count = 2, writer_locked = False\<rparr>)
     = (thrd_busy, Some \<lparr>reader_count = 2, writer_locked = False\<rparr>, [])
   \<and> smtx_trylock_exclusive False (Some \<lparr>reader_count = 0, writer_locked = True\<rparr>)
     = (thrd_busy, Some \<lparr>reader_count = 0, writer_locked = True\<rparr>, [])"
  using trylock_busy_unchanged [of "\<lparr>reader_count = 0, writer_locked = True\<rparr>"
      "Some \<lparr>reader_count = 0, writer_locked = True\<rparr>" "[]" False
      "Some \<lparr>reader_count = 0, writer_locked = True\<rparr>" "[]"]
    trylock_busy_unchanged [of "\<lparr>reader_count = 2, writer_locked = False\<rparr>"
      "Some \<lparr>reader_count = 2, writer_locked = False\<rparr>" "[]" False
      "Some \<lparr>reader_count = 2, writer_locked = False\<rparr>" "[]"]
  by (simp add: smtx_trylock_shared_def smtx_trylock_exclusive_def atomic_defs)

text \<open>
  C4, as the claim states it, fails for \<open>smtx_trylock_exclusive\<close>: its one
  compare-and-exchange is the weak one, and when that fails spuriously the call returns
  \<open>thrd_busy\<close> on a lock that nobody holds.
\<close>

theorem trylock_exclusive_spurious_counterexample:
  "\<not> writer_locked \<lparr>reader_count = 0, writer_locked = False\<rparr>
   \<and> reader_count \<lparr>reader_count = 0, writer_locked = False\<rparr> = 0
   \<and> smtx_trylock_exclusive True (Some \<lparr>reader_count = 0, writer_locked = False\<rparr>)
     = (thrd_busy, Some \<lparr>reader_count = 0, writer_locked = False\<rparr>, [])"
  by (simp add: smtx_trylock_exclusive_def atomic_defs)

text \<open>
  C4, amended. \<open>smtx_trylock_shared\<close> returns \<open>thrd_success\<close> whenever the writer flag is
  clear; \<open>smtx_trylock_exclusive\<close> returns \<open>thrd_success\<close> whenever the flag is clear,
  the reader count is zero and its compare-and-exchange does not fail spuriously.
  Neither spins, yields or reads the clock, whatever it returns.
\<close>

theorem trylock_uncontended_success:
  "(\<not> writer_locked s \<longrightarrow>
      smtx_trylock_shared (Some s) = (thrd_success, Some (fetch_add_reader_count s), []))
   \<and> (\<not> writer_locked s \<and> reader_count s = 0 \<and> \<not> fails \<longrightarrow>
      smtx_trylock_exclusive fails (Some s) = (thrd_success, Some (store_writer_locked True s), []))
   \<and> snd (snd (smtx_trylock_shared smtx)) = []
   \<and> snd (snd (smtx_trylock_exclusive fails smtx)) = []"
  by (auto simp add: smtx_trylock_shared_def smtx_trylock_exclusive_def atomic_defs Let_def
      split: option.split)

theorem trylock_uncontended_success_witness:
  "smtx_trylock_shared (Some \<lparr>reader_count = 3, writer_locked = False\<rparr>)
     = (thrd_success, Some \<lparr>reader_count = 4, writer_locked = False\<rparr>, [])
   \<and> smtx_trylock_exclusive False (Some \<lparr>reader_count = 0, writer_locked = False\<rparr>)
     = (thrd_success, Some \<lparr>reader_count = 0, writer_locked = True\<rparr>, [])"
  using trylock_uncontended_success [of "\<lparr>reader_count = 3, writer_locked = False\<rparr>" False None]
    trylock_uncontended_success [of "\<lparr>reader_count = 0, writer_locked = False\<rparr>" False None]
  by (simp add: atomic_defs)

subsection \<open>The release operations\<close>

text \<open>
  C10. For every lock state, \<open>smtx_unlock_shared\<close> leaves \<open>writer_locked\<close> as it is and
  \<open>smtx_unlock_exclusive\<close> leaves \<open>reader_count\<close> as it is. The first two conjuncts say
  what each call does: it decrements the count, or clears the flag, and returns
  \<open>thrd_success\<close>, unless the debug assertion (compiled in with \<^verbatim>\<open>SMTX_DEBUG\<close> and
  checked when \<^verbatim>\<open>SMTX_ASSERT\<close> is active) halts it before the lock is written.
\<close>

theorem unlock_frame:
  "smtx_unlock_shared cfg (Some s) =
     (if debug cfg \<and> assert_active cfg \<and> reader_count s = 0 then Inl Assertion_failed
      else Inr (thrd_success, Some (s\<lparr>reader_count := reader_count s - 1\<rparr>)))
   \<and> smtx_unlock_exclusive cfg (Some s) =
     (if debug cfg \<and> assert_active cfg \<and> \<not> writer_locked s then Inl Assertion_failed
      else Inr (thrd_success, Some (s\<lparr>writer_locked := False\<rparr>)))
   \<and> (\<forall>r s'. smtx_unlock_shared cfg (Some s) = Inr (r, Some s') \<longrightarrow>
         writer_locked s' = writer_locked s)
   \<and> (\<forall>r s'. smtx_unlock_exclusive cfg (Some s) = Inr (r, Some s') \<longrightarrow>
         reader_count s' = reader_count s)"
  by (auto simp add: smtx_unlock_shared_def smtx_unlock_exclusive_def atomic_defs
      word_greater_zero_iff)

theorem unlock_frame_witness:
  "smtx_unlock_shared default_config (Some \<lparr>reader_count = 2, writer_locked = True\<rparr>)
     = Inr (thrd_success, Some \<lparr>reader_count = 1, writer_locked = True\<rparr>)
   \<and> smtx_unlock_exclusive default_config (Some \<lparr>reader_count = 2, writer_locked = True\<rparr>)
     = Inr (thrd_success, Some \<lparr>reader_count = 2, writer_locked = False\<rparr>)"
  using unlock_frame [of default_config "\<lparr>reader_count = 2, writer_locked = True\<rparr>"]
  by (simp add: default_config_def)

subsection \<open>Acquire, then release\<close>

text \<open>
  C6, as the claim states it, fails in a debug build (the default) at a lock whose
  reader count is \<open>2^32 - 1\<close>: the shared acquire succeeds and wraps the count to zero,
  and the assertion of \<open>smtx_unlock_shared\<close> then halts the process.
\<close>

theorem unlock_shared_wrapped_counterexample:
  "smtx_trylock_shared (Some \<lparr>reader_count = 4294967295, writer_locked = False\<rparr>)
     = (thrd_success, Some \<lparr>reader_count = 0, writer_locked = False\<rparr>, [])
   \<and> smtx_unlock_shared default_config (Some \<lparr>reader_count = 0, writer_locked = False\<rparr>)
     = Inl Assertion_failed"
  by (simp add: smtx_trylock_shared_def smtx_unlock_shared_def atomic_defs default_config_def)

text \<open>
  C6, amended. For every lock state \<open>s\<close> in which an acquire returns \<open>thrd_success\<close>,
  that acquire followed by its matching release returns \<open>thrd_success\<close> and leaves the
  lock in exactly state \<open>s\<close>; for the shared acquires in a debug build this needs a
  reader count other than \<open>2^32 - 1\<close>.
\<close>

theorem acquire_release_restores:
  "(smtx_lock_shared cfg fuel (Some s) = Some (thrd_success, h1, ev1)
      \<and> (debug cfg \<longrightarrow> reader_count s \<noteq> - 1) \<longrightarrow>
      smtx_unlock_shared cfg h1 = Inr (thrd_success, Some s))
   \<and> (smtx_trylock_shared (Some s) = (thrd_success, h2, ev2)
      \<and> (debug cfg \<longrightarrow> reader_count s \<noteq> - 1) \<longrightarrow>
      smtx_unlock_shared cfg h2 = Inr (thrd_success, Some s))
   \<and> (smtx_timedlock_shared cfg clock (Some s) (Some tp) = Some (Inr (thrd_success, h3, ev3))
      \<and> (debug cfg \<longrightarrow> reader_count s \<noteq> - 1) \<longrightarrow>
      smtx_unlock_shared cfg h3 = Inr (thrd_success, Some s))
   \<and> (smtx_lock_exclusive cfg fuel spurious (Some s) = Some (thrd_success, h4, ev4) \<longrightarrow>
      smtx_unlock_exclusive cfg h4 = Inr (thrd_success, Some s))
   \<and> (smtx_trylock_exclusive fails (Some s) = (thrd_success, h5, ev5) \<longrightarrow>
      smtx_unlock_exclusive cfg h5 = Inr (thrd_success, Some s))
   \<and> (smtx_timedlock_exclusive cfg spurious clock (Some s) (Some tp)
        = Some (Inr (thrd_success, h6, ev6)) \<longrightarrow>
      smtx_unlock_exclusive cfg h6 = Inr (thrd_success, Some s))"
proof -
  have shared: "smtx_unlock_shared cfg (Some (fetch_add_reader_count s)) = Inr (thrd_success, Some s)"
    if "debug cfg \<longrightarrow> reader_count s \<noteq> - 1"
  proof -
    from that have "debug cfg \<longrightarrow> reader_count s + 1 \<noteq> 0"
      by (simp add: add_eq_0_iff2)
    then show ?thesis
      by (simp add: smtx_unlock_shared_def word_greater_zero_iff atomic_defs)
  qed
  have exclusive: "smtx_unlock_exclusive cfg (Some (store_writer_locked True s)) = Inr (thrd_success, Some s)"
    if "\<not> writer_locked s"
    using that by (simp add: smtx_unlock_exclusive_def atomic_defs)
  have "smtx_unlock_shared cfg h1 = Inr (thrd_success, Some s)"
    if "smtx_lock_shared cfg fuel (Some s) = Some (thrd_success, h1, ev1)"
      and "debug cfg \<longrightarrow> reader_count s \<noteq> - 1"
    using that shared by (auto simp add: smtx_lock_shared_def dest: lock_shared_loop_Some)
  moreover have "smtx_unlock_shared cfg h2 = Inr (thrd_success, Some s)"
    if "smtx_trylock_shared (Some s) = (thrd_success, h2, ev2)"
      and "debug cfg \<longrightarrow> reader_count s \<noteq> - 1"
    using that shared by (auto simp add: smtx_trylock_shared_def Let_def split: if_splits)
  moreover have "smtx_unlock_shared cfg h3 = Inr (thrd_success, Some s)"
    if "smtx_timedlock_shared cfg clock (Some s) (Some tp) = Some (Inr (thrd_success, h3, ev3))"
      and "debug cfg \<longrightarrow> reader_count s \<noteq> - 1"
    using that shared by (auto simp add: smtx_timedlock_shared_def dest: timedlock_shared_loop_success)
  moreover have "smtx_unlock_exclusive cfg h4 = Inr (thrd_success, Some s)"
    if "smtx_lock_exclusive cfg fuel spurious (Some s) = Some (thrd_success, h4, ev4)"
    using that exclusive by (auto simp add: smtx_lock_exclusive_def dest: lock_exclusive_claim_Some)
  moreover have "smtx_unlock_exclusive cfg h5 = Inr (thrd_success, Some s)"
    if "smtx_trylock_exclusive fails (Some s) = (thrd_success, h5, ev5)"
    using that exclusive
    by (auto simp add: smtx_trylock_exclusive_def atomic_compare_exchange_weak_def Let_def
        split: if_splits)
  moreover have "smtx_unlock_exclusive cfg h6 = Inr (thrd_success, Some s)"
    if "smtx_timedlock_exclusive cfg spurious clock (Some s) (Some tp)
        = Some (Inr (thrd_success, h6, ev6))"
    using that exclusive
    by (auto simp add: smtx_timedlock_exclusive_def dest: timedlock_exclusive_claim_success)
  ultimately show ?thesis
    by blast
qed

theorem acquire_release_restores_witness:
  "smtx_lock_shared default_config 1 (Some \<lparr>reader_count = 3, writer_locked = False\<rparr>)
     = Some (thrd_success, Some \<lparr>reader_count = 4, writer_locked = False\<rparr>, [])
   \<and> smtx_unlock_shared default_config (Some \<lparr>reader_count = 4, writer_locked = False\<rparr>)
     = Inr (thrd_success, Some \<lparr>reader_count = 3, writer_locked = False\<rparr>)
   \<and> smtx_lock_exclusive default_config 2 [] (Some \<lparr>reader_count = 0, writer_locked = False\<rparr>)
     = Some (thrd_success, Some \<lparr>reader_count = 0, writer_locked = True\<rparr>, [])
   \<and> smtx_unlock_exclusive default_config (Some \<lparr>reader_count = 0, writer_locked = True\<rparr>)
     = Inr (thrd_success, Some \<lparr>reader_count = 0, writer_locked = False\<rparr>)"
proof -
  have acquire_shared:
    "smtx_lock_shared default_config 1 (Some \<lparr>reader_count = 3, writer_locked = False\<rparr>)
       = Some (thrd_success, Some \<lparr>reader_count = 4, writer_locked = False\<rparr>, [])"
    by (simp add: smtx_lock_shared_def atomic_defs)
  have acquire_exclusive:
    "smtx_lock_exclusive default_config 2 [] (Some \<lparr>reader_count = 0, writer_locked = False\<rparr>)
       = Some (thrd_success, Some \<lparr>reader_count = 0, writer_locked = True\<rparr>, [])"
    by (simp add: smtx_lock_exclusive_def atomic_defs numeral_2_eq_2)
  have no_wrap: "debug default_config \<longrightarrow> reader_count \<lparr>reader_count = 3, writer_locked = False\<rparr> \<noteq> - 1"
    by simp
  from acquire_release_restores [of default_config 1 "\<lparr>reader_count = 3, writer_locked = False\<rparr>"
      "Some \<lparr>reader_count = 4, writer_locked = False\<rparr>" "[]"]
    acquire_release_restores [of default_config 2 "\<lparr>reader_count = 0, writer_locked = False\<rparr>"
      _ _ _ _ _ _ _ _ "[]" "Some \<lparr>reader_count = 0, writer_locked = True\<rparr>" "[]"]
    acquire_shared acquire_exclusive no_wrap
  show ?thesis
    by simp
qed

subsection \<open>Deadlines\<close>

text \<open>
  C1, as the claim states it, fails in two ways. \<open>smtx_timedlock_exclusive\<close> reads the
  clock only after a compare-and-exchange has failed or the reader count was seen
  non-zero, so on a free lock it returns \<open>thrd_success\<close>, holding the lock, although the
  deadline has passed. And both operations compare the times as unsigned 64-bit
  nanosecond counts: a deadline of \<open>-1\<close> seconds becomes a count near \<open>2^64\<close>, above the
  reading of a clock at 5 seconds, and \<open>smtx_timedlock_shared\<close> takes the lock.
\<close>

theorem timedlock_past_deadline_counterexample:
  "timespec_ns \<lparr>tv_sec = 1, tv_nsec = 0\<rparr> \<le> timespec_ns \<lparr>tv_sec = 2, tv_nsec = 0\<rparr>
   \<and> smtx_timedlock_exclusive default_config []
       [\<lparr>gettime = Some \<lparr>tv_sec = 2, tv_nsec = 0\<rparr>, leftover = \<lparr>tv_sec = 0, tv_nsec = 0\<rparr>\<rparr>]
       (Some \<lparr>reader_count = 0, writer_locked = False\<rparr>) (Some \<lparr>tv_sec = 1, tv_nsec = 0\<rparr>)
     = Some (Inr (thrd_success, Some \<lparr>reader_count = 0, writer_locked = True\<rparr>, []))
   \<and> timespec_ns \<lparr>tv_sec = - 1, tv_nsec = 0\<rparr> \<le> timespec_ns \<lparr>tv_sec = 5, tv_nsec = 0\<rparr>
   \<and> smtx_timedlock_shared default_config
       [\<lparr>gettime = Some \<lparr>tv_sec = 5, tv_nsec = 0\<rparr>, leftover = \<lparr>tv_sec = 0, tv_nsec = 0\<rparr>\<rparr>]
       (Some \<lparr>reader_count = 0, writer_locked = False\<rparr>) (Some \<lparr>tv_sec = - 1, tv_nsec = 0\<rparr>)
     = Some (Inr (thrd_success, Some \<lparr>reader_count = 1, writer_locked = False\<rparr>, [Clock]))"
  by (simp add: smtx_timedlock_exclusive_def smtx_timedlock_shared_def
      timedlock_exclusive_claim_free timedlock_exclusive_drain_Cons timespec_ns_def
      ns_since_epoch_def ns_from_timespec_def SMTX_NS_PER_S_def atomic_defs default_config_def)

text \<open>
  C1, amended. Take a build in which \<^verbatim>\<open>SMTX_ASSERT\<close> evaluates its argument, a valid
  handle, a non-null deadline and a first clock reading, both between \<open>0\<close> and
  \<open>2^64 - 1\<close> nanoseconds, the reading at or past the deadline. Then
  \<open>smtx_timedlock_shared\<close> returns \<open>thrd_timedout\<close> with the lock unchanged, and so does
  \<open>smtx_timedlock_exclusive\<close> whenever it cannot take the lock at once (the writer flag
  is set, readers are present, or its first compare-and-exchange fails spuriously). On
  a free lock \<open>smtx_timedlock_exclusive\<close> returns \<open>thrd_success\<close> with the flag set,
  without reading the clock.
\<close>

theorem timedlock_past_deadline:
  assumes "assert_active cfg" and "gettime r = Some now"
    and "representable tp" and "representable now"
    and "timespec_ns tp \<le> timespec_ns now"
  shows "smtx_timedlock_shared cfg (r # clock) (Some s) (Some tp)
       = Some (Inr (thrd_timedout, Some s, [Clock]))
     \<and> (writer_locked s \<or> reader_count s > 0 \<or> (spurious \<noteq> [] \<and> hd spurious) \<longrightarrow>
          smtx_timedlock_exclusive cfg spurious (r # clock) (Some s) (Some tp)
            = Some (Inr (thrd_timedout, Some s, [Clock])))
     \<and> (\<not> writer_locked s \<and> reader_count s = 0 \<and> \<not> (spurious \<noteq> [] \<and> hd spurious) \<longrightarrow>
          smtx_timedlock_exclusive cfg spurious (r # clock) (Some s) (Some tp)
            = Some (Inr (thrd_success, Some (store_writer_locked True s), [])))"
proof (intro conjI impI)
  from assms have past: "ns_from_timespec tp \<le> ns_from_timespec now"
    by (simp add: ns_le_representable)
  from assms(1,2) have call: "ns_since_epoch cfg r = Inr (ns_from_timespec now, [Clock])"
    by (simp add: ns_since_epoch_def)
  from past call show "smtx_timedlock_shared cfg (r # clock) (Some s) (Some tp)
      = Some (Inr (thrd_timedout, Some s, [Clock]))"
    by (simp add: smtx_timedlock_shared_def not_less [symmetric])
  {
    assume busy: "writer_locked s \<or> reader_count s > 0 \<or> (spurious \<noteq> [] \<and> hd spurious)"
    show "smtx_timedlock_exclusive cfg spurious (r # clock) (Some s) (Some tp)
        = Some (Inr (thrd_timedout, Some s, [Clock]))"
    proof (cases "writer_locked s \<or> (spurious \<noteq> [] \<and> hd spurious)")
      case True
      with past call show ?thesis
        by (simp add: smtx_timedlock_exclusive_def timedlock_exclusive_claim_held)
    next
      case False
      with busy have "reader_count s > 0"
        by blast
      with False past call show ?thesis
        by (simp add: smtx_timedlock_exclusive_def timedlock_exclusive_claim_free
            timedlock_exclusive_drain_Cons store_writer_locked_def)
    qed
  }
  {
    assume "\<not> writer_locked s \<and> reader_count s = 0 \<and> \<not> (spurious \<noteq> [] \<and> hd spurious)"
    then show "smtx_timedlock_exclusive cfg spurious (r # clock) (Some s) (Some tp)
        = Some (Inr (thrd_success, Some (store_writer_locked True s), []))"
      by (simp add: smtx_timedlock_exclusive_def timedlock_exclusive_claim_free
          timedlock_exclusive_drain_Cons)
  }
qed

text \<open>
  A clock at 2 seconds, a deadline of 1 second and a lock with one reader: both timed
  operations return \<open>thrd_timedout\<close> and leave the reader where it was.
\<close>

theorem timedlock_past_deadline_witness:
  "assert_active default_config
   \<and> representable \<lparr>tv_sec = 1, tv_nsec = 0\<rparr> \<and> representable \<lparr>tv_sec = 2, tv_nsec = 0\<rparr>
   \<and> timespec_ns \<lparr>tv_sec = 1, tv_nsec = 0\<rparr> \<le> timespec_ns \<lparr>tv_sec = 2, tv_nsec = 0\<rparr>
   \<and> smtx_timedlock_shared default_config
       [\<lparr>gettime = Some \<lparr>tv_sec = 2, tv_nsec = 0\<rparr>, leftover = \<lparr>tv_sec = 0, tv_nsec = 0\<rparr>\<rparr>]
       (Some \<lparr>reader_count = 1, writer_locked = False\<rparr>) (Some \<lparr>tv_sec = 1, tv_nsec = 0\<rparr>)
     = Some (Inr (thrd_timedout, Some \<lparr>reader_count = 1, writer_locked = False\<rparr>, [Clock]))
   \<and> smtx_timedlock_exclusive default_config []
       [\<lparr>gettime = Some \<lparr>tv_sec = 2, tv_nsec = 0\<rparr>, leftover = \<lparr>tv_sec = 0, tv_nsec = 0\<rparr>\<rparr>]
       (Some \<lparr>reader_count = 1, writer_locked = False\<rparr>) (Some \<lparr>tv_sec = 1, tv_nsec = 0\<rparr>)
     = Some (Inr (thrd_timedout, Some \<lparr>reader_count = 1, writer_locked = False\<rparr>, [Clock]))"
proof -
  have active: "assert_active default_config"
    by (simp add: default_config_def)
  have reading: "gettime \<lparr>gettime = Some \<lparr>tv_sec = 2, tv_nsec = 0\<rparr>, leftover = \<lparr>tv_sec = 0, tv_nsec = 0\<rparr>\<rparr>
      = Some \<lparr>tv_sec = 2, tv_nsec = 0\<rparr>"
    by simp
  have rep: "representable \<lparr>tv_sec = 1, tv_nsec = 0\<rparr>" "representable \<lparr>tv_sec = 2, tv_nsec = 0\<rparr>"
    by (simp_all add: representable_def timespec_ns_def)
  have past: "timespec_ns \<lparr>tv_sec = 1, tv_nsec = 0\<rparr> \<le> timespec_ns \<lparr>tv_sec = 2, tv_nsec = 0\<rparr>"
    by (simp add: timespec_ns_def)
  from timedlock_past_deadline [OF active reading rep past, of "[]"
      "\<lparr>reader_count = 1, writer_locked = False\<rparr>" "[]"] active rep past
  show ?thesis
    by simp
qed

text \<open>
  C7. \<open>ns_since_epoch\<close> calls \<^verbatim>\<open>clock_gettime\<close> inside the argument of
  \<^verbatim>\<open>SMTX_ASSERT\<close>. In a build where that macro does not evaluate its argument (the
  default \<^verbatim>\<open>assert\<close> under \<^verbatim>\<open>NDEBUG\<close>) the clock is not read and the time compared
  with the deadline is whatever the uninitialised \<^verbatim>\<open>struct timespec\<close> holds: with a
  clock at 5 seconds and a deadline of 1 second \<open>smtx_timedlock_shared\<close> takes the lock,
  and with a clock at 0 seconds and that deadline both timed operations return
  \<open>thrd_timedout\<close>. The timeout is then not decided by the current monotonic time.
\<close>

theorem ns_since_epoch_without_assert:
  "ns_since_epoch (default_config\<lparr>assert_active := False\<rparr>)
       \<lparr>gettime = Some \<lparr>tv_sec = 5, tv_nsec = 0\<rparr>, leftover = \<lparr>tv_sec = 0, tv_nsec = 7\<rparr>\<rparr>
     = Inr (7, [])
   \<and> smtx_timedlock_shared (default_config\<lparr>assert_active := False\<rparr>)
       [\<lparr>gettime = Some \<lparr>tv_sec = 5, tv_nsec = 0\<rparr>, leftover = \<lparr>tv_sec = 0, tv_nsec = 7\<rparr>\<rparr>]
       (Some \<lparr>reader_count = 0, writer_locked = False\<rparr>) (Some \<lparr>tv_sec = 1, tv_nsec = 0\<rparr>)
     = Some (Inr (thrd_success, Some \<lparr>reader_count = 1, writer_locked = False\<rparr>, []))
   \<and> smtx_timedlock_shared (default_config\<lparr>assert_active := False\<rparr>)
       [\<lparr>gettime = Some \<lparr>tv_sec = 0, tv_nsec = 0\<rparr>, leftover = \<lparr>tv_sec = 9, tv_nsec = 0\<rparr>\<rparr>]
       (Some \<lparr>reader_count = 0, writer_locked = False\<rparr>) (Some \<lparr>tv_sec = 1, tv_nsec = 0\<rparr>)
     = Some (Inr (thrd_timedout, Some \<lparr>reader_count = 0, writer_locked = False\<rparr>, []))
   \<and> smtx_timedlock_exclusive (default_config\<lparr>assert_active := False\<rparr>) []
       [\<lparr>gettime = Some \<lparr>tv_sec = 0, tv_nsec = 0\<rparr>, leftover = \<lparr>tv_sec = 9, tv_nsec = 0\<rparr>\<rparr>]
       (Some \<lparr>reader_count = 0, writer_locked = True\<rparr>) (Some \<lparr>tv_sec = 1, tv_nsec = 0\<rparr>)
     = Some (Inr (thrd_timedout, Some \<lparr>reader_count = 0, writer_locked = True\<rparr>, []))"
  by (simp add: smtx_timedlock_shared_def smtx_timedlock_exclusive_def
      timedlock_exclusive_claim_held ns_since_epoch_def ns_from_timespec_def SMTX_NS_PER_S_def
      atomic_defs default_config_def)

text \<open>
  What holds of the comparison: \<open>ns_from_timespec\<close> returns
  \<open>tv_sec * 1000000000 + tv_nsec\<close> modulo \<open>2^64\<close>. In a build where \<^verbatim>\<open>SMTX_ASSERT\<close>
  evaluates its argument, a call of \<open>ns_since_epoch\<close> is past the deadline exactly when
  the deadline is at most the clock reading, both on that scale, and before it exactly
  when the reading is below the deadline. A timed operation returns \<open>thrd_timedout\<close>
  only after a call of \<open>ns_since_epoch\<close> that was past the deadline, and it returns
  \<open>thrd_timedout\<close> at the first such call while it waits: in both operations while the
  writer flag is set, and in the second phase of \<open>smtx_timedlock_exclusive\<close> while
  readers are present.
\<close>

theorem deadline_comparison:
  "uint (ns_from_timespec ts) = (sint (tv_sec ts) * 1000000000 + sint (tv_nsec ts)) mod 2 ^ 64
   \<and> (assert_active cfg \<and> gettime r = Some now \<longrightarrow>
        clock_past cfg d r = (d \<le> ns_from_timespec now)
        \<and> clock_before cfg d r = (ns_from_timespec now < d))
   \<and> (smtx_timedlock_shared cfg clock (Some s) (Some tp) = Some (Inr (thrd_timedout, h, ev)) \<longrightarrow>
        (\<exists>r \<in> set clock. clock_past cfg (ns_from_timespec tp) r))
   \<and> (smtx_timedlock_exclusive cfg spurious clock (Some s) (Some tp)
          = Some (Inr (thrd_timedout, h', ev')) \<longrightarrow>
        (\<exists>r \<in> set clock. clock_past cfg (ns_from_timespec tp) r))
   \<and> ((\<forall>b \<in> set before. clock_before cfg (ns_from_timespec tp) b)
        \<and> clock_past cfg (ns_from_timespec tp) past \<longrightarrow>
        (writer_locked s \<longrightarrow>
           (\<exists>evs. smtx_timedlock_shared cfg (before @ past # after) (Some s) (Some tp)
              = Some (Inr (thrd_timedout, Some s, evs)))
           \<and> (\<exists>evs. smtx_timedlock_exclusive cfg spurious (before @ past # after) (Some s) (Some tp)
              = Some (Inr (thrd_timedout, Some s, evs))))
        \<and> (\<not> writer_locked s \<and> reader_count s > 0 \<and> \<not> (spurious \<noteq> [] \<and> hd spurious) \<longrightarrow>
           (\<exists>evs. smtx_timedlock_exclusive cfg spurious (before @ past # after) (Some s) (Some tp)
              = Some (Inr (thrd_timedout, Some s, evs)))))"
proof (intro conjI impI)
  show "uint (ns_from_timespec ts) = (sint (tv_sec ts) * 1000000000 + sint (tv_nsec ts)) mod 2 ^ 64"
    by (rule uint_ns_from_timespec)
next
  assume "assert_active cfg \<and> gettime r = Some now"
  then have call: "ns_since_epoch cfg r = Inr (ns_from_timespec now, [Clock])"
    by (simp add: ns_since_epoch_def)
  then show "clock_past cfg d r = (d \<le> ns_from_timespec now)"
    and "clock_before cfg d r = (ns_from_timespec now < d)"
    by (simp_all add: clock_past_def clock_before_def)
next
  assume "smtx_timedlock_shared cfg clock (Some s) (Some tp) = Some (Inr (thrd_timedout, h, ev))"
  then show "\<exists>r \<in> set clock. clock_past cfg (ns_from_timespec tp) r"
    by (auto simp add: smtx_timedlock_shared_def dest: timedlock_shared_loop_timedout)
next
  assume "smtx_timedlock_exclusive cfg spurious clock (Some s) (Some tp)
      = Some (Inr (thrd_timedout, h', ev'))"
  then show "\<exists>r \<in> set clock. clock_past cfg (ns_from_timespec tp) r"
    by (auto simp add: smtx_timedlock_exclusive_def dest: timedlock_exclusive_claim_timedout)
next
  assume rounds: "(\<forall>b \<in> set before. clock_before cfg (ns_from_timespec tp) b)
      \<and> clock_past cfg (ns_from_timespec tp) past"
  {
    assume "writer_locked s"
    with rounds show "\<exists>evs. smtx_timedlock_shared cfg (before @ past # after) (Some s) (Some tp)
        = Some (Inr (thrd_timedout, Some s, evs))"
      and "\<exists>evs. smtx_timedlock_exclusive cfg spurious (before @ past # after) (Some s) (Some tp)
        = Some (Inr (thrd_timedout, Some s, evs))"
      by (simp_all add: smtx_timedlock_shared_def smtx_timedlock_exclusive_def
          timedlock_shared_loop_wait timedlock_exclusive_claim_wait)
  }
  {
    assume "\<not> writer_locked s \<and> reader_count s > 0 \<and> \<not> (spurious \<noteq> [] \<and> hd spurious)"
    with rounds show "\<exists>evs. smtx_timedlock_exclusive cfg spurious (before @ past # after) (Some s) (Some tp)
        = Some (Inr (thrd_timedout, Some s, evs))"
      by (simp add: smtx_timedlock_exclusive_def timedlock_exclusive_claim_free
          timedlock_exclusive_drain_wait store_writer_locked_def)
  }
qed

subsection \<open>Spin caps\<close>

text \<open>
  C9. \<open>smtx_timedlock_exclusive\<close> caps its spin count with
  \<^verbatim>\<open>SMTX_MAX_READER_WAIT_SPINS\<close> (1024 by default) in both phases: its result does not
  depend on the writer-wait cap at all, and the events of a wait that times out in phase
  1 (flag held by another writer) or in phase 2 (readers present) are those of rounds
  advanced under the reader-wait cap. The shared paths do not depend on the reader-wait
  cap, and a timed shared wait for a writer advances under the writer-wait cap.
\<close>

theorem timedlock_exclusive_reader_cap:
  "max_reader_wait_spins default_config = 1024
   \<and> smtx_timedlock_exclusive (cfg\<lparr>max_writer_wait_spins := w\<rparr>) spurious clock smtx time_point
       = smtx_timedlock_exclusive cfg spurious clock smtx time_point
   \<and> smtx_timedlock_shared (cfg\<lparr>max_reader_wait_spins := r\<rparr>) clock smtx time_point
       = smtx_timedlock_shared cfg clock smtx time_point
   \<and> smtx_lock_shared (cfg\<lparr>max_reader_wait_spins := r\<rparr>) fuel smtx = smtx_lock_shared cfg fuel smtx
   \<and> ((\<forall>b \<in> set before. clock_before cfg (ns_from_timespec tp) b)
        \<and> clock_past cfg (ns_from_timespec tp) now \<longrightarrow>
        (writer_locked s \<longrightarrow>
           smtx_timedlock_exclusive cfg spurious (before @ now # after) (Some s) (Some tp)
             = Some (Inr (thrd_timedout, Some s,
                 backoff_events cfg (max_reader_wait_spins cfg) 1 (length before)
                   @ clock_events cfg)))
        \<and> (\<not> writer_locked s \<and> reader_count s > 0 \<and> \<not> (spurious \<noteq> [] \<and> hd spurious) \<longrightarrow>
           smtx_timedlock_exclusive cfg spurious (before @ now # after) (Some s) (Some tp)
             = Some (Inr (thrd_timedout, Some s,
                 backoff_events cfg (max_reader_wait_spins cfg) 1 (length before)
                   @ clock_events cfg)))
        \<and> (writer_locked s \<longrightarrow>
           smtx_timedlock_shared cfg (before @ now # after) (Some s) (Some tp)
             = Some (Inr (thrd_timedout, Some s,
                 backoff_events cfg (max_writer_wait_spins cfg) 1 (length before)
                   @ clock_events cfg))))"
proof (intro conjI impI)
  show "max_reader_wait_spins default_config = 1024"
    by (simp add: default_config_def)
  show "smtx_timedlock_exclusive (cfg\<lparr>max_writer_wait_spins := w\<rparr>) spurious clock smtx time_point
      = smtx_timedlock_exclusive cfg spurious clock smtx time_point"
    by (simp add: smtx_timedlock_exclusive_def timedlock_exclusive_claim_writer_cap
        split: option.split)
  show "smtx_timedlock_shared (cfg\<lparr>max_reader_wait_spins := r\<rparr>) clock smtx time_point
      = smtx_timedlock_shared cfg clock smtx time_point"
    by (simp add: smtx_timedlock_shared_def timedlock_shared_loop_reader_cap split: option.split)
  show "smtx_lock_shared (cfg\<lparr>max_reader_wait_spins := r\<rparr>) fuel smtx = smtx_lock_shared cfg fuel smtx"
    by (simp add: smtx_lock_shared_def lock_shared_loop_reader_cap split: option.split)
next
  assume "(\<forall>b \<in> set before. clock_before cfg (ns_from_timespec tp) b)
      \<and> clock_past cfg (ns_from_timespec tp) now"
    and "writer_locked s"
  then show "smtx_timedlock_exclusive cfg spurious (before @ now # after) (Some s) (Some tp)
      = Some (Inr (thrd_timedout, Some s,
          backoff_events cfg (max_reader_wait_spins cfg) 1 (length before) @ clock_events cfg))"
    by (simp add: smtx_timedlock_exclusive_def timedlock_exclusive_claim_wait)
next
  assume "(\<forall>b \<in> set before. clock_before cfg (ns_from_timespec tp) b)
      \<and> clock_past cfg (ns_from_timespec tp) now"
    and "\<not> writer_locked s \<and> reader_count s > 0 \<and> \<not> (spurious \<noteq> [] \<and> hd spurious)"
  then show "smtx_timedlock_exclusive cfg spurious (before @ now # after) (Some s) (Some tp)
      = Some (Inr (thrd_timedout, Some s,
          backoff_events cfg (max_reader_wait_spins cfg) 1 (length before) @ clock_events cfg))"
    by (simp add: smtx_timedlock_exclusive_def timedlock_exclusive_claim_free
        timedlock_exclusive_drain_wait store_writer_locked_def)
next
  assume "(\<forall>b \<in> set before. clock_before cfg (ns_from_timespec tp) b)
      \<and> clock_past cfg (ns_from_timespec tp) now"
    and "writer_locked s"
  then show "smtx_timedlock_shared cfg (before @ now # after) (Some s) (Some tp)
      = Some (Inr (thrd_timedout, Some s,
          backoff_events cfg (max_writer_wait_spins cfg) 1 (length before) @ clock_events cfg))"
    by (simp add: smtx_timedlock_shared_def timedlock_shared_loop_wait)
qed

text \<open>
  With a reader-wait cap of 2 and the default writer-wait cap, three rounds of the
  exclusive wait spin 1, 2, 2 times and three rounds of the shared wait 1, 2, 4 times.
\<close>

theorem timedlock_exclusive_reader_cap_witness:
  "smtx_timedlock_exclusive (default_config\<lparr>max_reader_wait_spins := 2\<rparr>) []
       [\<lparr>gettime = Some \<lparr>tv_sec = 0, tv_nsec = 1\<rparr>, leftover = \<lparr>tv_sec = 0, tv_nsec = 0\<rparr>\<rparr>,
        \<lparr>gettime = Some \<lparr>tv_sec = 0, tv_nsec = 2\<rparr>, leftover = \<lparr>tv_sec = 0, tv_nsec = 0\<rparr>\<rparr>,
        \<lparr>gettime = Some \<lparr>tv_sec = 0, tv_nsec = 3\<rparr>, leftover = \<lparr>tv_sec = 0, tv_nsec = 0\<rparr>\<rparr>,
        \<lparr>gettime = Some \<lparr>tv_sec = 0, tv_nsec = 4\<rparr>, leftover = \<lparr>tv_sec = 0, tv_nsec = 0\<rparr>\<rparr>]
       (Some \<lparr>reader_count = 0, writer_locked = True\<rparr>) (Some \<lparr>tv_sec = 0, tv_nsec = 4\<rparr>)
     = Some (Inr (thrd_timedout, Some \<lparr>reader_count = 0, writer_locked = True\<rparr>,
         [Clock, Pause, Clock, Pause, Pause, Clock, Pause, Pause, Clock]))
   \<and> smtx_timedlock_shared (default_config\<lparr>max_reader_wait_spins := 2\<rparr>)
       [\<lparr>gettime = Some \<lparr>tv_sec = 0, tv_nsec = 1\<rparr>, leftover = \<lparr>tv_sec = 0, tv_nsec = 0\<rparr>\<rparr>,
        \<lparr>gettime = Some \<lparr>tv_sec = 0, tv_nsec = 2\<rparr>, leftover = \<lparr>tv_sec = 0, tv_nsec = 0\<rparr>\<rparr>,
        \<lparr>gettime = Some \<lparr>tv_sec = 0, tv_nsec = 3\<rparr>, leftover = \<lparr>tv_sec = 0, tv_nsec = 0\<rparr>\<rparr>,
        \<lparr>gettime = Some \<lparr>tv_sec = 0, tv_nsec = 4\<rparr>, leftover = \<lparr>tv_sec = 0, tv_nsec = 0\<rparr>\<rparr>]
       (Some \<lparr>reader_count = 0, writer_locked = True\<rparr>) (Some \<lparr>tv_sec = 0, tv_nsec = 4\<rparr>)
     = Some (Inr (thrd_timedout, Some \<lparr>reader_count = 0, writer_locked = True\<rparr>,
         [Clock, Pause, Clock, Pause, Pause, Clock, Pause, Pause, Pause, Pause, Clock]))"
proof -
  let ?cfg = "default_config\<lparr>max_reader_wait_spins := 2\<rparr>"
  let ?r = "\<lambda>n. \<lparr>gettime = Some \<lparr>tv_sec = 0, tv_nsec = n\<rparr>, leftover = \<lparr>tv_sec = 0, tv_nsec = 0\<rparr>\<rparr>"
  have before:
    "\<forall>b \<in> set [?r 1, ?r 2, ?r 3]. clock_before ?cfg (ns_from_timespec \<lparr>tv_sec = 0, tv_nsec = 4\<rparr>) b"
    "clock_past ?cfg (ns_from_timespec \<lparr>tv_sec = 0, tv_nsec = 4\<rparr>) (?r 4)"
    by (simp_all add: clock_before_def clock_past_def ns_since_epoch_def ns_from_timespec_def
        default_config_def)
  have two: "replicate 2 Pause = [Pause, Pause]"
    and four: "replicate 4 Pause = [Pause, Pause, Pause, Pause]"
    by (simp_all add: numeral_eq_Suc)
  from timedlock_exclusive_reader_cap [where cfg = ?cfg and spurious = "[]"
      and before = "[?r 1, ?r 2, ?r 3]" and now = "?r 4" and tp = "\<lparr>tv_sec = 0, tv_nsec = 4\<rparr>"
      and s = "\<lparr>reader_count = 0, writer_locked = True\<rparr>" and after = "[]"] before
  show ?thesis
    by (simp add: spin_with_yield_def SPIN_replicate advance_spins_def clock_events_def
        default_config_def two four)
qed

subsection \<open>Interleavings\<close>




end
